theory Spec2Isabelle
  imports Main "HOL-Library.Word" "HOL-Library.Log_Nat"
begin

unbundle bit_operations_syntax

section \<open>The openpoker wire protocol (protocol.go)\<close>

subsection \<open>Bytes, byte sources and I/O errors\<close>

text \<open>
  A Go \<open>uint8\<close> is an \<open>8 word\<close>, \<open>uint16\<close> a \<open>16 word\<close>, \<open>uint32\<close> and \<open>int32\<close> a
  \<open>32 word\<close>. An \<open>io.Reader\<close> is the list of the bytes it has still to deliver; each read
  returns what it read together with the rest of the source. An \<open>io.Writer\<close> is the list
  of the bytes written so far. A Go \<open>string\<close> is its byte sequence.
\<close>

type_synonym byte = "8 word"
type_synonym reader = "byte list"
type_synonym writer = "byte list"

text \<open>
  The errors \<open>ReadMsg\<close> can return: the two errors of \<open>io.ReadFull\<close> on an exhausted
  source, and the three errors \<open>ReadMsg\<close> builds itself, each carrying the command tag
  that its message text prints.
\<close>

datatype error =
    EOF
  | ErrUnexpectedEOF
  | CannotDeserialize byte
  | TooShort byte
  | TooLong byte

text \<open>
  \<open>io.ReadFull(r, buf)\<close> with \<open>len(buf) = n\<close>: a buffer of \<open>n\<close> zero bytes is filled from
  the source as far as the source goes. Nothing read at all is \<open>EOF\<close>, fewer than \<open>n\<close>
  bytes is \<open>ErrUnexpectedEOF\<close>; an empty buffer is filled without reading.
\<close>

definition ReadFull :: "reader \<Rightarrow> nat \<Rightarrow> (byte list \<times> error option) \<times> reader" where
  "ReadFull r n =
     (if n = 0 then (([], None), r)
      else if r = [] then ((replicate n 0, Some EOF), [])
      else if length r < n then ((r @ replicate (n - length r) 0, Some ErrUnexpectedEOF), [])
      else ((take n r, None), drop n r))"

text \<open>
  \<open>binary.Read(r, binary.BigEndian, &data)\<close> for a fixed-size \<open>data\<close> of \<open>n\<close> bytes:
  the bytes are read with \<open>io.ReadFull\<close>; on an error the error is returned and \<open>data\<close>
  is left untouched, otherwise the bytes are handed over for decoding.
\<close>

definition binary_Read :: "reader \<Rightarrow> nat \<Rightarrow> (error + byte list) \<times> reader" where
  "binary_Read r n =
     (case ReadFull r n of
        ((bs, None), r') \<Rightarrow> (Inr bs, r')
      | ((bs, Some e), r') \<Rightarrow> (Inl e, r'))"

subsection \<open>Big-endian integers\<close>

definition be16 :: "16 word \<Rightarrow> byte list" where
  "be16 w = [ucast (drop_bit 8 w), ucast w]"

definition be32 :: "32 word \<Rightarrow> byte list" where
  "be32 w = [ucast (drop_bit 24 w), ucast (drop_bit 16 w), ucast (drop_bit 8 w), ucast w]"

fun uint16_of :: "byte list \<Rightarrow> 16 word" where
  "uint16_of [a, b] = push_bit 8 (ucast a) OR ucast b"
| "uint16_of _ = 0"

fun uint32_of :: "byte list \<Rightarrow> 32 word" where
  "uint32_of [a, b, c, d] =
     push_bit 24 (ucast a) OR push_bit 16 (ucast b) OR push_bit 8 (ucast c) OR ucast d"
| "uint32_of _ = 0"

subsection \<open>The low-level readers\<close>

text \<open>
  \<open>readByte\<close>, \<open>readInt\<close> and \<open>readString\<close> call \<open>binary.Read\<close> and \<open>io.ReadFull\<close> and drop
  the error they return: the variable keeps its zero value when the read fails.
\<close>

definition readByte :: "reader \<Rightarrow> byte \<times> reader" where
  "readByte r =
     (case binary_Read r 1 of
        (Inr [b], r') \<Rightarrow> (b, r')
      | (_, r') \<Rightarrow> (0, r'))"

definition readInt :: "reader \<Rightarrow> 32 word \<times> reader" where
  "readInt r =
     (case binary_Read r 4 of
        (Inr bs, r') \<Rightarrow> (uint32_of bs, r')
      | (Inl e, r') \<Rightarrow> (0, r'))"

text \<open>
  \<open>readString\<close> returns \<open>uint16(size + 1)\<close> with \<open>size\<close> a \<open>uint8\<close>: the sum is taken in
  8 bits and only then widened.
\<close>

definition readString :: "reader \<Rightarrow> (byte list \<times> 16 word) \<times> reader" where
  "readString r =
     (let (size', r1) = readByte r;
          ((bytes, err), r2) = ReadFull r1 (unat size')
      in ((bytes, ucast (size' + 1)), r2))"

subsection \<open>Amounts: 32-bit floating point\<close>

text \<open>
  \<open>Amount\<close> is a Go \<open>float32\<close>. A finite \<open>float32\<close> is modelled by the rational number
  it denotes, and an arithmetic operation by the exact operation followed by \<open>fl32\<close>,
  the IEEE 754 rounding to the nearest binary32 value, ties to the even significand:
  24 significant bits, and the unit in the last place never below \<open>2 ^ -149\<close>
  (subnormal numbers). Overflow to an infinity (a result of \<open>2 ^ 128\<close> or more) and NaN
  are outside the model; no amount read from the wire comes near them.
\<close>

definition pow2 :: "int \<Rightarrow> rat" where
  "pow2 e = (if 0 \<le> e then 2 ^ nat e else 1 / 2 ^ nat (- e))"

text \<open>\<open>ilog2 x\<close> is the \<open>e\<close> with \<open>2 ^ e \<le> x < 2 ^ (e + 1)\<close>, for \<open>x > 0\<close>.\<close>

definition ilog2 :: "rat \<Rightarrow> int" where
  "ilog2 x =
     (let (p, q) = quotient_of x;
          d = bitlen p - bitlen q
      in if pow2 d \<le> x then d else d - 1)"

definition round_half_even :: "rat \<Rightarrow> int" where
  "round_half_even x =
     (let f = \<lfloor>x\<rfloor>; d = x - of_int f
      in if d < 1 / 2 then f
         else if 1 / 2 < d then f + 1
         else if even f then f else f + 1)"

definition fl32 :: "rat \<Rightarrow> rat" where
  "fl32 x =
     (if x = 0 then 0
      else let e = max (ilog2 \<bar>x\<bar> - 23) (- 149)
           in of_int (round_half_even (x / pow2 e)) * pow2 e)"

text \<open>
  The conversion \<open>float32 \<rightarrow> uint32\<close> discards the fraction. For a value below 0 or beyond
  \<open>2 ^ 32 - 1\<close> Go leaves the result to the implementation; the model wraps there, and
  no statement below depends on it.
\<close>

definition truncate :: "rat \<Rightarrow> int" where
  "truncate x = (if 0 \<le> x then \<lfloor>x\<rfloor> else \<lceil>x\<rceil>)"

definition uint32_of_float32 :: "rat \<Rightarrow> 32 word" where
  "uint32_of_float32 x = word_of_int (truncate x)"

definition float32_of_uint32 :: "32 word \<Rightarrow> rat" where
  "float32_of_uint32 n = fl32 (of_nat (unat n))"

subsection \<open>Command tags\<close>

abbreviation GOOD :: byte where "GOOD \<equiv> 0"
abbreviation LOGIN :: byte where "LOGIN \<equiv> 1"
abbreviation LOGOUT :: byte where "LOGOUT \<equiv> 2"
abbreviation BAD :: byte where "BAD \<equiv> 255"
abbreviation START_GAME :: byte where "START_GAME \<equiv> 17"
abbreviation YOU_ARE :: byte where "YOU_ARE \<equiv> 31"
abbreviation YOUR_GAME :: byte where "YOUR_GAME \<equiv> 39"
abbreviation SEAT_QUERY :: byte where "SEAT_QUERY \<equiv> 14"
abbreviation SEAT_INFO :: byte where "SEAT_INFO \<equiv> 30"
abbreviation GAME_QUERY :: byte where "GAME_QUERY \<equiv> 13"
abbreviation GAME_INFO :: byte where "GAME_INFO \<equiv> 18"
abbreviation JOIN :: byte where "JOIN \<equiv> 8"
abbreviation NOTIFY_JOIN :: byte where "NOTIFY_JOIN \<equiv> 44"
abbreviation WATCH :: byte where "WATCH \<equiv> 3"
abbreviation NOTIFY_CANCEL_GAME :: byte where "NOTIFY_CANCEL_GAME \<equiv> 25"
abbreviation UNWATCH :: byte where "UNWATCH \<equiv> 4"
abbreviation LEAVE :: byte where "LEAVE \<equiv> 9"
abbreviation NOTIFY_LEAVE :: byte where "NOTIFY_LEAVE \<equiv> 45"
abbreviation NOTIFY_START_GAME :: byte where "NOTIFY_START_GAME \<equiv> 23"
abbreviation NOTIFY_BUTTON :: byte where "NOTIFY_BUTTON \<equiv> 35"
abbreviation NOTIFY_SB :: byte where "NOTIFY_SB \<equiv> 36"
abbreviation BET_REQ :: byte where "BET_REQ \<equiv> 20"
abbreviation RAISE :: byte where "RAISE \<equiv> 6"
abbreviation BALANCE_QUERY :: byte where "BALANCE_QUERY \<equiv> 16"
abbreviation BALANCE :: byte where "BALANCE \<equiv> 33"
abbreviation FOLD :: byte where "FOLD \<equiv> 7"
abbreviation NOTIFY_RAISE :: byte where "NOTIFY_RAISE \<equiv> 42"
abbreviation NOTIFY_BB :: byte where "NOTIFY_BB \<equiv> 37"
abbreviation NOTIFY_DRAW :: byte where "NOTIFY_DRAW \<equiv> 21"
abbreviation NOTIFY_SHARED :: byte where "NOTIFY_SHARED \<equiv> 22"
abbreviation NOTIFY_HAND :: byte where "NOTIFY_HAND \<equiv> 27"
abbreviation NOTIFY_END_GAME :: byte where "NOTIFY_END_GAME \<equiv> 24"
abbreviation SIT_OUT :: byte where "SIT_OUT \<equiv> 10"
abbreviation COME_BACK :: byte where "COME_BACK \<equiv> 11"
abbreviation CHAT :: byte where "CHAT \<equiv> 12"
abbreviation NOTIFY_CHAT :: byte where "NOTIFY_CHAT \<equiv> 43"
abbreviation GAME_STAGE :: byte where "GAME_STAGE \<equiv> 29"
abbreviation SHOW_CARDS :: byte where "SHOW_CARDS \<equiv> 40"
abbreviation NOTIFY_WIN :: byte where "NOTIFY_WIN \<equiv> 26"
abbreviation PLAYER_QUERY :: byte where "PLAYER_QUERY \<equiv> 15"
abbreviation PLAYER_INFO :: byte where "PLAYER_INFO \<equiv> 19"

abbreviation GT_TEXAS_HOLDEM :: byte where "GT_TEXAS_HOLDEM \<equiv> 1"

subsection \<open>Field types and field values\<close>

text \<open>
  The fourteen named field types of the protocol, and a value of each. \<open>Id\<close> is an
  \<open>int32\<close>, kept as its 32 bits; \<open>Text\<close> is a string, kept as its bytes; \<open>Cards\<close> is a
  slice of \<open>Card {Seq, Suit}\<close>.
\<close>

datatype kind =
    KCmd | KText | KSmall | KBig | KAmount | KOp | KLimitType
  | KPlayerState | KGameStage | KGameType | KId | KSeq | KSuit | KCards

datatype val =
    VCmd byte
  | VText "byte list"
  | VSmall byte
  | VBig "32 word"
  | VAmount rat
  | VOp byte
  | VLimitType byte
  | VPlayerState byte
  | VGameStage byte
  | VGameType byte
  | VId "32 word"
  | VSeq byte
  | VSuit byte
  | VCards "(byte \<times> byte) list"

fun kind_of :: "val \<Rightarrow> kind" where
  "kind_of (VCmd _) = KCmd"
| "kind_of (VText _) = KText"
| "kind_of (VSmall _) = KSmall"
| "kind_of (VBig _) = KBig"
| "kind_of (VAmount _) = KAmount"
| "kind_of (VOp _) = KOp"
| "kind_of (VLimitType _) = KLimitType"
| "kind_of (VPlayerState _) = KPlayerState"
| "kind_of (VGameStage _) = KGameStage"
| "kind_of (VGameType _) = KGameType"
| "kind_of (VId _) = KId"
| "kind_of (VSeq _) = KSeq"
| "kind_of (VSuit _) = KSuit"
| "kind_of (VCards _) = KCards"

subsection \<open>The \<open>read\<close> methods\<close>

text \<open>
  Each \<open>read\<close> method stores the value it read and returns the number of bytes it
  reports as consumed, a \<open>uint16\<close>. The loop of \<open>Cards.read\<close> runs \<open>n\<close> times and reads
  the \<open>Seq\<close> byte before the \<open>Suit\<close> byte.
\<close>

fun read_cards :: "nat \<Rightarrow> reader \<Rightarrow> (byte \<times> byte) list \<times> reader" where
  "read_cards 0 r = ([], r)"
| "read_cards (Suc k) r =
     (let (sq, r1) = readByte r;
          (su, r2) = readByte r1;
          (cs, r3) = read_cards k r2
      in ((sq, su) # cs, r3))"

definition Cards_read :: "reader \<Rightarrow> ((byte \<times> byte) list \<times> 16 word) \<times> reader" where
  "Cards_read r =
     (let (n, r1) = readByte r;
          (l, r2) = read_cards (unat n) r1
      in ((l, 2 * ucast n + 1), r2))"

definition Amount_read :: "reader \<Rightarrow> (rat \<times> 16 word) \<times> reader" where
  "Amount_read r =
     (let (n, r1) = readInt r
      in ((fl32 (float32_of_uint32 n / 100), 4), r1))"

fun read :: "kind \<Rightarrow> reader \<Rightarrow> (val \<times> 16 word) \<times> reader" where
  "read KCards r = (let ((l, n), r1) = Cards_read r in ((VCards l, n), r1))"
| "read KCmd r = (let (b, r1) = readByte r in ((VCmd b, 1), r1))"
| "read KText r = (let ((s, l), r1) = readString r in ((VText s, l), r1))"
| "read KSmall r = (let (b, r1) = readByte r in ((VSmall b, 1), r1))"
| "read KBig r = (let (n, r1) = readInt r in ((VBig n, 4), r1))"
| "read KAmount r = (let ((a, n), r1) = Amount_read r in ((VAmount a, n), r1))"
| "read KOp r = (let (b, r1) = readByte r in ((VOp b, 1), r1))"
| "read KLimitType r = (let (b, r1) = readByte r in ((VLimitType b, 1), r1))"
| "read KGameStage r = (let (b, r1) = readByte r in ((VGameStage b, 1), r1))"
| "read KPlayerState r = (let (b, r1) = readByte r in ((VPlayerState b, 1), r1))"
| "read KGameType r = (let (b, r1) = readByte r in ((VGameType b, 1), r1))"
| "read KSeq r = (let (b, r1) = readByte r in ((VSeq b, 1), r1))"
| "read KSuit r = (let (b, r1) = readByte r in ((VSuit b, 1), r1))"
| "read KId r = (let (n, r1) = readInt r in ((VId n, 4), r1))"

subsection \<open>The \<open>write\<close> methods\<close>

text \<open>
  Nine of the fourteen field types have a \<open>write\<close> method and so implement the
  interface \<open>writable\<close>: \<open>LimitType\<close>, \<open>Id\<close>, \<open>GameType\<close>, \<open>Op\<close>, \<open>Cmd\<close>, \<open>Small\<close>, \<open>Big\<close>,
  \<open>Amount\<close> and \<open>Text\<close>. \<open>PlayerState\<close>, \<open>GameStage\<close>, \<open>Seq\<close>, \<open>Suit\<close> and \<open>Cards\<close> have
  none: a value of these types is not a \<open>writable\<close> and cannot be handed to
  \<open>writeMessage\<close>. The nine methods are the equations of \<open>write_field\<close>. They
  drop the error of \<open>binary.Write\<close>; writing to a buffer appends.
\<close>

datatype writable =
    WLimitType byte
  | WId "32 word"
  | WGameType byte
  | WOp byte
  | WCmd byte
  | WSmall byte
  | WBig "32 word"
  | WAmount rat
  | WText "byte list"

definition Big_write :: "writer \<Rightarrow> 32 word \<Rightarrow> writer" where
  "Big_write w n = w @ be32 n"

definition Amount_write :: "writer \<Rightarrow> rat \<Rightarrow> writer" where
  "Amount_write w n = Big_write w (uint32_of_float32 (fl32 (n * 100)))"

definition Text_write :: "writer \<Rightarrow> byte list \<Rightarrow> writer" where
  "Text_write w t = (let bytes = t in (w @ [of_nat (length bytes)]) @ bytes)"

fun write_field :: "writer \<Rightarrow> writable \<Rightarrow> writer" where
  "write_field w (WLimitType o') = w @ [o']"
| "write_field w (WId i) = w @ be32 i"
| "write_field w (WGameType g) = w @ [g]"
| "write_field w (WOp o') = w @ [o']"
| "write_field w (WCmd c) = w @ [c]"
| "write_field w (WSmall n) = w @ [n]"
| "write_field w (WBig n) = Big_write w n"
| "write_field w (WAmount n) = Amount_write w n"
| "write_field w (WText t) = Text_write w t"

text \<open>
  The interface conversion: the \<open>writable\<close> a field value is, when its type has a
  \<open>write\<close> method.
\<close>

fun as_writable :: "val \<Rightarrow> writable option" where
  "as_writable (VLimitType b) = Some (WLimitType b)"
| "as_writable (VId i) = Some (WId i)"
| "as_writable (VGameType b) = Some (WGameType b)"
| "as_writable (VOp b) = Some (WOp b)"
| "as_writable (VCmd b) = Some (WCmd b)"
| "as_writable (VSmall b) = Some (WSmall b)"
| "as_writable (VBig n) = Some (WBig n)"
| "as_writable (VAmount a) = Some (WAmount a)"
| "as_writable (VText t) = Some (WText t)"
| "as_writable (VPlayerState _) = None"
| "as_writable (VGameStage _) = None"
| "as_writable (VSeq _) = None"
| "as_writable (VSuit _) = None"
| "as_writable (VCards _) = None"

text \<open>The field types that have a \<open>write\<close> method.\<close>

fun has_write :: "kind \<Rightarrow> bool" where
  "has_write KPlayerState = False"
| "has_write KGameStage = False"
| "has_write KSeq = False"
| "has_write KSuit = False"
| "has_write KCards = False"
| "has_write _ = True"

subsection \<open>The message catalog and the schema registry\<close>

text \<open>
  The message structs, each with the types of its fields in declaration order, which is
  the order \<open>reflect\<close> gives them in. A message instance is its struct type together
  with one value per field.
\<close>

datatype msgtype =
    MsgGood | MsgBad | MsgYouAre | MsgYourGame | MsgSeatInfo | MsgGameInfo
  | MsgNotifyJoin | MsgNotifyCancelGame | MsgNotifyLeave | MsgNotifyStartGame
  | MsgNotifyButton | MsgNotifySb | MsgBetReq | MsgBalance | MsgNotifyRaise
  | MsgNotifyBb | MsgNotifyDraw | MsgNotifyShared | MsgNotifyHand | MsgNotifyEndGame
  | MsgNotifyChat | MsgGameStage | MsgShowCards | MsgNotifyWin | MsgPlayerInfo

fun fields :: "msgtype \<Rightarrow> kind list" where
  "fields MsgGood = [KCmd, KBig]"
| "fields MsgBad = [KCmd, KSmall]"
| "fields MsgYouAre = [KId]"
| "fields MsgYourGame = [KId]"
| "fields MsgSeatInfo = [KId, KSmall, KPlayerState, KId, KAmount]"
| "fields MsgGameInfo =
     [KId, KText, KGameType, KLimitType, KAmount, KAmount, KBig, KBig, KBig, KBig]"
| "fields MsgNotifyJoin = [KId, KId, KSmall, KAmount]"
| "fields MsgNotifyCancelGame = [KId]"
| "fields MsgNotifyLeave = [KId, KId]"
| "fields MsgNotifyStartGame = [KId]"
| "fields MsgNotifyButton = [KId, KSmall]"
| "fields MsgNotifySb = [KId, KSmall]"
| "fields MsgBetReq = [KId, KAmount, KAmount, KAmount]"
| "fields MsgBalance = [KAmount, KAmount]"
| "fields MsgNotifyRaise = [KId, KId, KAmount, KAmount]"
| "fields MsgNotifyBb = [KId, KSmall]"
| "fields MsgNotifyDraw = [KId, KId, KSeq, KSuit]"
| "fields MsgNotifyShared = [KId, KSeq, KSuit]"
| "fields MsgNotifyHand = [KId, KId, KSmall, KSmall, KSmall]"
| "fields MsgNotifyEndGame = [KId]"
| "fields MsgNotifyChat = [KId, KId, KText]"
| "fields MsgGameStage = [KId, KGameStage]"
| "fields MsgShowCards = [KId, KId, KCards]"
| "fields MsgNotifyWin = [KId, KId, KAmount]"
| "fields MsgPlayerInfo = [KId, KAmount, KText, KText]"

type_synonym message = "msgtype \<times> val list"

definition msgTypes :: "byte \<Rightarrow> msgtype option" where
  "msgTypes = map_of
     [(GOOD, MsgGood),
      (BAD, MsgBad),
      (YOU_ARE, MsgYouAre),
      (YOUR_GAME, MsgYourGame),
      (SEAT_INFO, MsgSeatInfo),
      (GAME_INFO, MsgGameInfo),
      (NOTIFY_JOIN, MsgNotifyJoin),
      (NOTIFY_CANCEL_GAME, MsgNotifyCancelGame),
      (NOTIFY_LEAVE, MsgNotifyLeave),
      (NOTIFY_START_GAME, MsgNotifyStartGame),
      (NOTIFY_BUTTON, MsgNotifyButton),
      (NOTIFY_SB, MsgNotifySb),
      (BET_REQ, MsgBetReq),
      (BALANCE, MsgBalance),
      (NOTIFY_RAISE, MsgNotifyRaise),
      (NOTIFY_BB, MsgNotifyBb),
      (NOTIFY_DRAW, MsgNotifyDraw),
      (NOTIFY_SHARED, MsgNotifyShared),
      (NOTIFY_HAND, MsgNotifyHand),
      (NOTIFY_END_GAME, MsgNotifyEndGame),
      (NOTIFY_CHAT, MsgNotifyChat),
      (GAME_STAGE, MsgGameStage),
      (SHOW_CARDS, MsgShowCards),
      (NOTIFY_WIN, MsgNotifyWin)]"

subsection \<open>Frames: \<open>writeMessage\<close> and \<open>ReadMsg\<close>\<close>

text \<open>
  \<open>writeMessage\<close> writes every part of the body to a buffer, then the buffer's length as
  a \<open>uint16\<close> (the conversion keeps the low 16 bits) and the buffer to the sink.
\<close>

definition writeMessage :: "writer \<Rightarrow> writable list \<Rightarrow> writer" where
  "writeMessage w body =
     (let buf = foldl write_field [] body
      in (w @ be16 (of_nat (length buf))) @ buf)"

text \<open>
  The field loop of \<open>ReadMsg\<close>. \<open>size\<close> is a \<open>uint16\<close>: the subtraction wraps, and the
  test \<open>size < 0\<close> is the comparison of an unsigned number with zero, as in the source.
  The result is the error, or the field values and what is left of \<open>size\<close>.
\<close>

fun read_fields ::
  "byte \<Rightarrow> kind list \<Rightarrow> reader \<Rightarrow> 16 word \<Rightarrow> (error + val list \<times> 16 word) \<times> reader" where
  "read_fields c [] r size' = (Inr ([], size'), r)"
| "read_fields c (k # ks) r size' =
     (let ((v, n), r1) = read k r;
          size1 = size' - n
      in if size1 < 0 then (Inl (TooShort c), r1)
         else (case read_fields c ks r1 size1 of
                 (Inl e, r2) \<Rightarrow> (Inl e, r2)
               | (Inr (vs, size2), r2) \<Rightarrow> (Inr (v # vs, size2), r2)))"

text \<open>
  \<open>ReadMsg\<close> returns \<open>(err, c, msg)\<close>; the model adds the rest of the source. Only the
  error of the first read, of the length, is looked at.
\<close>

definition ReadMsg :: "reader \<Rightarrow> (error option \<times> byte \<times> message option) \<times> reader" where
  "ReadMsg r =
     (case binary_Read r 2 of
        (Inl err, r1) \<Rightarrow> ((Some err, 0, None), r1)
      | (Inr bs, r1) \<Rightarrow>
          (let size' = uint16_of bs;
               (c, r2) = readByte r1;
               size' = size' - 1
           in case msgTypes c of
                None \<Rightarrow> ((Some (CannotDeserialize c), c, None), r2)
              | Some typ \<Rightarrow>
                  (case read_fields c (fields typ) r2 size' of
                     (Inl err, r3) \<Rightarrow> ((Some err, c, None), r3)
                   | (Inr (v, size1), r3) \<Rightarrow>
                       if 0 < size1 then ((Some (TooLong c), c, None), r3)
                       else ((None, c, Some (typ, v)), r3))))"

subsection \<open>Error texts\<close>

text \<open>
  \<open>Cmd.String\<close> names the forty-one tags and prints any other as its number;
  \<open>decimal\<close> is \<open>%d\<close> of a \<open>uint8\<close>. \<open>Error\<close> is the text of each error: those of
  package \<open>io\<close>, and the three built by \<open>ReadMsg\<close> with \<open>fmt.Sprintf\<close>.
\<close>

definition decimal :: "byte \<Rightarrow> string" where
  "decimal c =
     (let n = unat c;
          digit = (\<lambda>d. char_of (48 + d))
      in if n < 10 then [digit n]
         else if n < 100 then [digit (n div 10), digit (n mod 10)]
         else [digit (n div 100), digit (n div 10 mod 10), digit (n mod 10)])"

definition Cmd_String :: "byte \<Rightarrow> string" where
  "Cmd_String c =
     (if c = GOOD then ''GOOD''
      else if c = BAD then ''BAD''
      else if c = LOGIN then ''LOGIN''
      else if c = START_GAME then ''START_GAME''
      else if c = YOU_ARE then ''YOU_ARE''
      else if c = YOUR_GAME then ''YOUR_GAME''
      else if c = SEAT_INFO then ''SEAT_INFO''
      else if c = GAME_INFO then ''GAME_INFO''
      else if c = NOTIFY_JOIN then ''NOTIFY_JOIN''
      else if c = NOTIFY_CANCEL_GAME then ''NOTIFY_CANCEL_GAME''
      else if c = LOGOUT then ''LOGOUT''
      else if c = GAME_QUERY then ''GAME_QUERY''
      else if c = UNWATCH then ''UNWATCH''
      else if c = LEAVE then ''LEAVE''
      else if c = NOTIFY_LEAVE then ''NOTIFY_LEAVE''
      else if c = WATCH then ''WATCH''
      else if c = JOIN then ''JOIN''
      else if c = NOTIFY_START_GAME then ''NOTIFY_START_GAME''
      else if c = NOTIFY_BUTTON then ''NOTIFY_BUTTON''
      else if c = NOTIFY_SB then ''NOTIFY_SB''
      else if c = BET_REQ then ''BET_REQ''
      else if c = RAISE then ''RAISE''
      else if c = SEAT_QUERY then ''SEAT_QUERY''
      else if c = BALANCE_QUERY then ''BALANCE_QUERY''
      else if c = BALANCE then ''BALANCE''
      else if c = FOLD then ''FOLD''
      else if c = NOTIFY_RAISE then ''NOTIFY_RAISE''
      else if c = NOTIFY_BB then ''NOTIFY_BB''
      else if c = NOTIFY_DRAW then ''NOTIFY_DRAW''
      else if c = NOTIFY_SHARED then ''NOTIFY_SHARED''
      else if c = NOTIFY_HAND then ''NOTIFY_HAND''
      else if c = NOTIFY_END_GAME then ''NOTIFY_END_GAME''
      else if c = SIT_OUT then ''SIT_OUT''
      else if c = COME_BACK then ''COME_BACK''
      else if c = CHAT then ''CHAT''
      else if c = NOTIFY_CHAT then ''NOTIFY_CHAT''
      else if c = GAME_STAGE then ''GAME_STAGE''
      else if c = SHOW_CARDS then ''SHOW_CARDS''
      else if c = NOTIFY_WIN then ''NOTIFY_WIN''
      else if c = PLAYER_QUERY then ''PLAYER_QUERY''
      else if c = PLAYER_INFO then ''PLAYER_INFO''
      else ''Unknown Command ('' @ decimal c @ '')'')"

fun Error :: "error \<Rightarrow> string" where
  "Error EOF = ''EOF''"
| "Error ErrUnexpectedEOF = ''unexpected EOF''"
| "Error (CannotDeserialize c) = ''Cannot deserialize '' @ Cmd_String c"
| "Error (TooShort c) =
     ''The '' @ Cmd_String c @ '' message was too short to pOpulate all fields.''"
| "Error (TooLong c) =
     ''The '' @ Cmd_String c @ '' message was too long to pOpulate all fields.''"

subsection \<open>The request writers\<close>

definition WriteLogin :: "writer \<Rightarrow> byte list \<Rightarrow> byte list \<Rightarrow> writer" where
  "WriteLogin w nick pass = writeMessage w [WCmd LOGIN, WText nick, WText pass]"

definition WriteLogout :: "writer \<Rightarrow> writer" where
  "WriteLogout w = writeMessage w [WCmd LOGOUT]"

definition WriteJoin :: "writer \<Rightarrow> 32 word \<Rightarrow> byte \<Rightarrow> rat \<Rightarrow> writer" where
  "WriteJoin w gid seat amt = writeMessage w [WCmd JOIN, WId gid, WSmall seat, WAmount amt]"

definition WriteRaise :: "writer \<Rightarrow> 32 word \<Rightarrow> rat \<Rightarrow> writer" where
  "WriteRaise w gid raiseAmount = writeMessage w [WCmd RAISE, WId gid, WAmount raiseAmount]"

definition WriteChat :: "writer \<Rightarrow> byte list \<Rightarrow> writer" where
  "WriteChat w msg = writeMessage w [WCmd CHAT, WText msg]"

subsection \<open>The byte counts of a schema\<close>

text \<open>
  The sum of the counts that the \<open>read\<close> methods of a list of fields report, when
  they are run one after the other on a source.
\<close>

fun reported :: "kind list \<Rightarrow> reader \<Rightarrow> nat" where
  "reported [] r = 0"
| "reported (k # ks) r = (let ((v, n), r1) = read k r in unat n + reported ks r1)"

subsection \<open>The domain of the round-trip property\<close>

text \<open>
  An amount stands for \<open>k\<close> hundredths when it is the \<open>float32\<close> nearest to \<open>k / 100\<close>,
  \<open>k\<close> is below \<open>2 ^ 24\<close>, and its \<open>float32\<close> product with 100 lies from \<open>k\<close> up to, but
  not including, \<open>k + 1\<close>. An amount is in the domain when it stands for some number
  of hundredths; that number can only be the whole part of the product. A field value
  is in the domain when its text is at most 254 bytes long, its amount is such an
  amount, and its card list has at most 255 cards.
\<close>

definition hundredths :: "nat \<Rightarrow> rat \<Rightarrow> bool" where
  "hundredths k a =
     (k < 2 ^ 24 \<and> a = fl32 (of_nat k / 100) \<and>
      of_nat k \<le> fl32 (a * 100) \<and> fl32 (a * 100) < of_nat k + 1)"

definition whole_hundredths :: "rat \<Rightarrow> bool" where
  "whole_hundredths a =
     (let p = fl32 (a * 100)
      in 0 \<le> p \<and> p < 2 ^ 24 \<and> a = fl32 (of_int \<lfloor>p\<rfloor> / 100))"

fun in_domain :: "val \<Rightarrow> bool" where
  "in_domain (VText t) = (length t \<le> 254)"
| "in_domain (VAmount a) = whole_hundredths a"
| "in_domain (VCards l) = (length l \<le> 255)"
| "in_domain _ = True"

section \<open>Properties\<close>

subsection \<open>Reading from a source\<close>

lemma readByte_Nil: "readByte [] = (0, [])"
  by (simp add: readByte_def binary_Read_def ReadFull_def)

lemma readByte_Cons: "readByte (b # r) = (b, r)"
  by (simp add: readByte_def binary_Read_def ReadFull_def)

lemma binary_Read_2: "binary_Read (a # b # r) 2 = (Inr [a, b], r)"
  by (simp add: binary_Read_def ReadFull_def)

lemma msgTypes_not_PlayerInfo: "msgTypes c \<noteq> Some MsgPlayerInfo"
  by (simp add: msgTypes_def)

lemma ReadMsg_unknown_tag:
  "msgTypes c = None \<Longrightarrow>
   ReadMsg (hi # lo # c # rest) = ((Some (CannotDeserialize c), c, None), rest)"
  by (simp add: ReadMsg_def binary_Read_2 readByte_Cons)

text \<open>The unknown-command error names the tag, or prints its number.\<close>

lemma Error_CannotDeserialize_examples:
  "Error (CannotDeserialize LOGIN) = ''Cannot deserialize LOGIN''"
  "Error (CannotDeserialize 200) = ''Cannot deserialize Unknown Command (200)''"
  by code_simp+

text \<open>The field loop never leaves through its error branch.\<close>

lemma read_fields_Inr: "\<exists>vs s' r'. read_fields c ks r s = (Inr (vs, s'), r')"
proof (induction ks arbitrary: r s)
  case Nil
  show ?case by simp
next
  case (Cons k ks)
  obtain v n r1 where k: "read k r = ((v, n), r1)"
    by (metis surj_pair)
  from Cons.IH [of r1 "s - n"] obtain vs s' r'
    where "read_fields c ks r1 (s - n) = (Inr (vs, s'), r')" by blast
  with k show ?case by simp
qed

lemma ReadMsg_never_TooShort: "fst (fst (ReadMsg r)) \<noteq> Some (TooShort c)"
proof -
  have "read_fields c' ks r' s \<noteq> (Inl e, r'')" for c' ks r' s e r''
    using read_fields_Inr [of c' ks r' s] by auto
  then show ?thesis
    by (auto simp: ReadMsg_def Let_def binary_Read_def ReadFull_def
        split: prod.splits sum.splits option.splits if_splits)
qed

subsection \<open>The login scenario\<close>

text \<open>
  C5, as the code has it. \<open>WriteLogin\<close> with nick "alice" and password "secret" writes
  exactly \<open>00 0E 01 05 61 6C 69 63 65 06 73 65 63 72 65 74\<close>: the declared length is
  14, one byte for the tag, six for the nick and seven for the password. \<open>LOGIN\<close> is a
  request the client only sends: the registry has no entry for it, so \<open>ReadMsg\<close> on
  these bytes returns the tag \<open>LOGIN\<close> together with the unknown-command error, and no
  message.
\<close>

theorem WriteLogin_alice_secret:
  "WriteLogin [] [0x61, 0x6C, 0x69, 0x63, 0x65] [0x73, 0x65, 0x63, 0x72, 0x65, 0x74] =
     [0x00, 0x0E, 0x01, 0x05, 0x61, 0x6C, 0x69, 0x63, 0x65,
      0x06, 0x73, 0x65, 0x63, 0x72, 0x65, 0x74]
   \<and> msgTypes LOGIN = None
   \<and> fst (ReadMsg [0x00, 0x0E, 0x01, 0x05, 0x61, 0x6C, 0x69, 0x63, 0x65,
                     0x06, 0x73, 0x65, 0x63, 0x72, 0x65, 0x74]) =
       (Some (CannotDeserialize LOGIN), LOGIN, None)"
  by code_simp

text \<open>
  C5 as the claim states it fails twice: the bytes written are not the sixteen bytes of
  the claim, whose length field says 13, and decoding those sixteen bytes yields no
  message: the two text fields stay unread in the source.
\<close>

theorem login_frame_not_as_claimed:
  "WriteLogin [] [0x61, 0x6C, 0x69, 0x63, 0x65] [0x73, 0x65, 0x63, 0x72, 0x65, 0x74] \<noteq>
     [0x00, 0x0D, 0x01, 0x05, 0x61, 0x6C, 0x69, 0x63, 0x65,
      0x06, 0x73, 0x65, 0x63, 0x72, 0x65, 0x74]
   \<and> ReadMsg [0x00, 0x0D, 0x01, 0x05, 0x61, 0x6C, 0x69, 0x63, 0x65,
               0x06, 0x73, 0x65, 0x63, 0x72, 0x65, 0x74] =
       ((Some (CannotDeserialize LOGIN), LOGIN, None),
        [0x05, 0x61, 0x6C, 0x69, 0x63, 0x65, 0x06, 0x73, 0x65, 0x63, 0x72, 0x65, 0x74])"
  by code_simp

subsection \<open>Unknown command tags\<close>

text \<open>
  C10. \<open>MsgPlayerInfo\<close> is declared in the catalog, the registry has no entry for the
  tag \<open>PLAYER_INFO\<close> (19) and maps no tag at all to \<open>MsgPlayerInfo\<close>; every frame tagged
  \<open>PLAYER_INFO\<close> is answered with the unknown-command error, whose text is
  "Cannot deserialize PLAYER_INFO", and no call of \<open>ReadMsg\<close>, on any source, returns
  a \<open>MsgPlayerInfo\<close> instance.
\<close>

theorem PLAYER_INFO_never_decoded:
  "fields MsgPlayerInfo = [KId, KAmount, KText, KText]
   \<and> msgTypes PLAYER_INFO = None
   \<and> msgTypes c \<noteq> Some MsgPlayerInfo
   \<and> ReadMsg (hi # lo # PLAYER_INFO # rest) =
       ((Some (CannotDeserialize PLAYER_INFO), PLAYER_INFO, None), rest)
   \<and> Error (CannotDeserialize PLAYER_INFO) = ''Cannot deserialize PLAYER_INFO''
   \<and> snd (snd (fst (ReadMsg r))) \<noteq> Some (MsgPlayerInfo, vs)"
proof -
  have none: "msgTypes PLAYER_INFO = None"
    by (simp add: msgTypes_def)
  have etext: "Error (CannotDeserialize PLAYER_INFO) = ''Cannot deserialize PLAYER_INFO''"
    by (simp add: Cmd_String_def)
  have never: "snd (snd (fst (ReadMsg r))) \<noteq> Some (MsgPlayerInfo, vs)"
    using msgTypes_not_PlayerInfo
    by (auto simp: ReadMsg_def Let_def split: prod.splits sum.splits option.splits)
  show ?thesis
    using none never etext msgTypes_not_PlayerInfo ReadMsg_unknown_tag [OF none]
    by (simp del: Error.simps)
qed

text \<open>
  C6, as the code has it. A frame whose tag has no entry in the registry is answered
  with the unknown-command error carrying that tag, and \<open>ReadMsg\<close> returns at once: the
  source is left right behind the tag byte, three bytes into the frame, whatever length
  the frame declares.
\<close>

theorem unknown_tag_stops_behind_tag:
  "msgTypes c = None \<Longrightarrow>
   ReadMsg (hi # lo # c # rest) = ((Some (CannotDeserialize c), c, None), rest)"
  by (rule ReadMsg_unknown_tag)

theorem unknown_tag_stops_behind_tag_witness:
  "msgTypes LOGOUT = None \<and>
   ReadMsg [0, 5, LOGOUT, 1, 2, 3, 4] =
     ((Some (CannotDeserialize LOGOUT), LOGOUT, None), [1, 2, 3, 4])"
proof -
  have h: "msgTypes LOGOUT = None" by (simp add: msgTypes_def)
  show ?thesis
    using h unknown_tag_stops_behind_tag [OF h, of 0 5 "[1, 2, 3, 4]"] by simp
qed

text \<open>
  C6 as the claim states it fails: the frame declares five bytes, and after the call the
  source is not behind them: the four bytes after the tag are still there.
\<close>

theorem unknown_tag_frame_not_skipped:
  "snd (ReadMsg [0, 5, PLAYER_INFO, 0, 0, 0, 7]) \<noteq>
   drop (2 + unat (uint16_of [0, 5])) [0, 5, PLAYER_INFO, 0, 0, 0, 7]"
  by code_simp

subsection \<open>Short frames and exhausted sources\<close>

text \<open>
  C2 at a frame that is too short. \<open>YOU_ARE\<close> needs the tag and a four-byte \<open>Id\<close>; the
  frame declares a length of 1. The counter wraps from 0 to 65532, the test
  \<open>size < 0\<close> is false, and the frame is reported as too long. By
  \<open>ReadMsg_never_TooShort\<close> the too-short error is returned for no source at all.
\<close>

theorem short_frame_reported_too_long:
  "ReadMsg [0, 1, YOU_ARE, 0, 0, 0, 7] = ((Some (TooLong YOU_ARE), YOU_ARE, None), [])"
  by code_simp

text \<open>
  A short frame can even be accepted: a \<open>NOTIFY_CHAT\<close> frame that declares 9 bytes,
  enough for the tag and the two ids only, is decoded together with the 255-byte text
  that follows it, because that text is counted as 0 bytes.
\<close>

lemma short_frame_accepted_with_text_255:
  "ReadMsg ([0, 9, NOTIFY_CHAT, 0, 0, 0, 1, 0, 0, 0, 2, 255] @ replicate 255 0x61) =
     ((None, NOTIFY_CHAT, Some (MsgNotifyChat, [VId 1, VId 2, VText (replicate 255 0x61)])), [])"
  by code_simp

text \<open>
  The one source failure \<open>ReadMsg\<close> reports is that of the read of the length: it
  returns an I/O error exactly when the source holds fewer than two bytes.
\<close>

lemma ReadMsg_Nil: "ReadMsg [] = ((Some EOF, 0, None), [])"
  by (simp add: ReadMsg_def binary_Read_def ReadFull_def)

lemma ReadMsg_single: "ReadMsg [b] = ((Some ErrUnexpectedEOF, 0, None), [])"
  by (simp add: ReadMsg_def binary_Read_def ReadFull_def)

lemma ReadMsg_io_error_iff:
  "fst (fst (ReadMsg r)) \<in> {Some EOF, Some ErrUnexpectedEOF} \<longleftrightarrow> length r < 2"
proof (cases r)
  case Nil
  then show ?thesis by (simp add: ReadMsg_Nil)
next
  case (Cons hi r1)
  show ?thesis
  proof (cases r1)
    case Nil
    with Cons show ?thesis by (simp add: ReadMsg_single)
  next
    case r1: (Cons lo r2)
    have nf: "read_fields c' ks r2' s \<noteq> (Inl e, r3')" for c' ks r2' s e r3'
      using read_fields_Inr [of c' ks r2' s] by auto
    show ?thesis
      using Cons r1 nf
      by (auto simp: ReadMsg_def binary_Read_2 Let_def
          split: prod.splits option.splits sum.splits)
  qed
qed

text \<open>
  C9 at a source that ends behind a length of 6. The failed reads of the tag and of the
  fields are not looked at: the tag reads as 0, which is \<open>GOOD\<close>, its two fields read as
  zero and account for the five remaining bytes, and the call succeeds.
\<close>

theorem exhausted_source_decodes_as_GOOD:
  "ReadMsg [0, 6] = ((None, GOOD, Some (MsgGood, [VCmd 0, VBig 0])), [])"
  by code_simp

subsection \<open>Texts of 255 bytes and more\<close>

text \<open>
  C4 at a \<open>NOTIFY_CHAT\<close> message with a text of 255 bytes. \<open>readString\<close> reads all 256
  bytes of the field and reports \<open>uint16(size + 1)\<close>, which is 0 for \<open>size = 255\<close>; the
  frame is rejected as too long.
\<close>

theorem text_255_rejected_as_too_long:
  "ReadMsg (writeMessage [] [WCmd NOTIFY_CHAT, WId 1, WId 2, WText (replicate 255 0x61)]) =
     ((Some (TooLong NOTIFY_CHAT), NOTIFY_CHAT, None), [])"
  by code_simp

text \<open>
  C7, as the code has it. For a text of more than 255 bytes \<open>Text.write\<close> does not fail:
  it writes one length byte, the low eight bits of the byte length, and then the whole
  text, so that the length byte is not the length of what follows.
\<close>

theorem Text_write_long:
  "255 < length t \<Longrightarrow>
   Text_write w t = w @ of_nat (length t mod 256) # t
   \<and> unat (of_nat (length t mod 256) :: byte) \<noteq> length t"
proof -
  assume long: "255 < length t"
  have "(of_nat (length t) :: byte) = of_nat (length t mod 256)"
    by (simp add: word_eq_iff_unsigned [where ?'a = nat] unsigned_of_nat take_bit_eq_mod)
  moreover have "unat (of_nat (length t mod 256) :: byte) < 256"
    using unsigned_less [of "of_nat (length t mod 256) :: byte", where ?'a = nat] by simp
  ultimately show ?thesis
    using long by (simp add: Text_write_def)
qed

theorem Text_write_long_witness:
  "255 < length (replicate 300 (0x61 :: byte)) \<and>
   Text_write [] (replicate 300 0x61) = 44 # replicate 300 0x61"
  using Text_write_long [of "replicate 300 (0x61 :: byte)" "[]"] by simp

text \<open>
  C7 as the claim states it fails: for a text of 256 bytes the length byte written is 0,
  followed by all 256 bytes.
\<close>

theorem Text_write_256_not_refused:
  "Text_write [] (replicate 256 0x61) = 0 # replicate 256 0x61"
  by (simp add: Text_write_def)

subsection \<open>Bytes consumed and bytes reported\<close>

text \<open>
  A read that leaves something in the source found all the bytes it asked for; the
  number of bytes it reports is then at most the number it took. (For a text of 255
  bytes it is less: 0 against 256.)
\<close>

lemma ReadFull_consumed:
  "ReadFull r n = (x, r') \<Longrightarrow> r' \<noteq> [] \<Longrightarrow> length r = n + length r'"
  by (auto simp: ReadFull_def split: if_splits)

lemma ReadFull_Nil: "snd (ReadFull [] n) = []"
  by (simp add: ReadFull_def)

lemma readByte_consumed:
  "readByte r = (b, r') \<Longrightarrow> r' \<noteq> [] \<Longrightarrow> length r = 1 + length r'"
  by (cases r) (auto simp: readByte_Nil readByte_Cons)

lemma readInt_consumed:
  "readInt r = (n, r') \<Longrightarrow> r' \<noteq> [] \<Longrightarrow> length r = 4 + length r'"
  by (auto simp: readInt_def binary_Read_def ReadFull_def split: if_splits)

lemma readInt_Nil: "readInt [] = (0, [])"
  by (simp add: readInt_def binary_Read_def ReadFull_def)

lemma unat_ucast_byte: "unat (ucast (b :: byte) :: 16 word) = unat b"
proof -
  have "unat b < 2 ^ 16" using unsigned_less [of b, where ?'a = nat] by simp
  then show ?thesis by (simp add: unsigned_ucast_eq take_bit_nat_eq_self)
qed

lemma unat_ucast_Suc_le: "unat (ucast (b + 1 :: byte) :: 16 word) \<le> 1 + unat b"
proof -
  have "unat (ucast (b + 1 :: byte) :: 16 word) = unat (b + 1)"
    by (rule unat_ucast_byte)
  also have "\<dots> \<le> unat b + 1"
    by (simp add: unat_word_ariths)
  finally show ?thesis by simp
qed

lemma readString_consumed:
  assumes "readString r = ((s, l), r')" and "r' \<noteq> []"
  shows "unat l + length r' \<le> length r"
proof -
  obtain b r1 where b: "readByte r = (b, r1)" by (metis surj_pair)
  obtain x r2 where x: "ReadFull r1 (unat b) = (x, r2)" by (metis surj_pair)
  from assms(1) b x have l: "l = ucast (b + 1)" and r2: "r2 = r'"
    by (auto simp: readString_def split: prod.splits)
  have r1: "r1 \<noteq> []"
    using x r2 assms(2) ReadFull_Nil [of "unat b"] by auto
  have "length r1 = unat b + length r'"
    using ReadFull_consumed [OF x] r2 assms(2) by simp
  moreover have "length r = 1 + length r1"
    using readByte_consumed [OF b r1] .
  ultimately show ?thesis
    using unat_ucast_Suc_le [of b] l by simp
qed

lemma read_cards_Nil: "snd (read_cards k []) = []"
  by (induction k) (auto simp: readByte_Nil split: prod.splits)

lemma read_cards_consumed:
  "read_cards k r = (cs, r') \<Longrightarrow> r' \<noteq> [] \<Longrightarrow> length r = 2 * k + length r'"
proof (induction k arbitrary: r cs)
  case 0
  then show ?case by simp
next
  case (Suc k)
  obtain sq r1 where a: "readByte r = (sq, r1)" by (metis surj_pair)
  obtain su r2 where b: "readByte r1 = (su, r2)" by (metis surj_pair)
  obtain cs' r3 where c: "read_cards k r2 = (cs', r3)" by (metis surj_pair)
  from Suc.prems(1) a b c have r3: "r3 = r'" by simp
  have r2: "r2 \<noteq> []" using c r3 Suc.prems(2) read_cards_Nil [of k] by auto
  have r1: "r1 \<noteq> []" using b r2 readByte_Nil by auto
  have "length r2 = 2 * k + length r'"
    using Suc.IH [OF c [unfolded r3] Suc.prems(2)] .
  moreover have "length r1 = 1 + length r2" using readByte_consumed [OF b r2] .
  moreover have "length r = 1 + length r1" using readByte_consumed [OF a r1] .
  ultimately show ?case by simp
qed

lemma unat_cards_count: "unat (2 * ucast (n :: byte) + 1 :: 16 word) = 2 * unat n + 1"
proof -
  have "unat n < 256" using unsigned_less [of n, where ?'a = nat] by simp
  then show ?thesis
    by (simp add: unat_word_ariths unat_ucast_byte)
qed

lemma Cards_read_consumed:
  assumes "Cards_read r = ((l, n), r')" and "r' \<noteq> []"
  shows "unat n + length r' \<le> length r"
proof -
  obtain b r1 where b: "readByte r = (b, r1)" by (metis surj_pair)
  obtain cs r2 where c: "read_cards (unat b) r1 = (cs, r2)" by (metis surj_pair)
  from assms(1) b c have n: "n = 2 * ucast b + 1" and r2: "r2 = r'"
    by (auto simp: Cards_read_def)
  have r1: "r1 \<noteq> []" using c r2 assms(2) read_cards_Nil [of "unat b"] by auto
  have "length r1 = 2 * unat b + length r'"
    using read_cards_consumed [OF c [unfolded r2] assms(2)] .
  moreover have "length r = 1 + length r1" using readByte_consumed [OF b r1] .
  ultimately show ?thesis using n unat_cards_count [of b] by simp
qed

lemma read_consumed:
  assumes "read k r = ((v, n), r')" and "r' \<noteq> []"
  shows "unat n + length r' \<le> length r"
proof (cases k)
  case KText
  with assms show ?thesis
    by (auto split: prod.splits dest: readString_consumed)
next
  case KCards
  with assms show ?thesis
    by (auto split: prod.splits dest: Cards_read_consumed)
next
  case KAmount
  with assms show ?thesis
    by (auto simp: Amount_read_def split: prod.splits dest: readInt_consumed)
qed (use assms in \<open>auto split: prod.splits dest: readByte_consumed readInt_consumed\<close>)

lemma read_Nil: "snd (read k []) = []"
  by (cases k)
    (auto simp: readByte_Nil readInt_Nil readString_def Cards_read_def Amount_read_def
      ReadFull_def read_cards_Nil split: prod.splits)

lemma read_fields_Nil: "snd (read_fields c ks [] s) = []"
proof (induction ks arbitrary: s)
  case Nil
  show ?case by simp
next
  case (Cons k ks)
  obtain v n r1 where k: "read k [] = ((v, n), r1)" by (metis surj_pair)
  then have "r1 = []" using read_Nil [of k] by simp
  with k Cons.IH [of "s - n"] show ?case
    by (auto split: prod.splits sum.splits)
qed

lemma read_fields_consumed:
  assumes "read_fields c ks r s = (res, r')" and "r' \<noteq> []"
  shows "\<exists>vs m. res = Inr (vs, s - of_nat m) \<and> m + length r' \<le> length r"
  using assms
proof (induction ks arbitrary: r s res)
  case Nil
  then have "res = Inr ([], s - of_nat 0) \<and> 0 + length r' \<le> length r" by auto
  then show ?case by blast
next
  case (Cons k ks)
  obtain v n r1 where k: "read k r = ((v, n), r1)" by (metis surj_pair)
  obtain res1 r2 where f: "read_fields c ks r1 (s - n) = (res1, r2)" by (metis surj_pair)
  from Cons.prems(1) k f have r2: "r2 = r'"
    by (auto split: sum.splits)
  have r1: "r1 \<noteq> []"
    using f r2 Cons.prems(2) read_fields_Nil [of c ks "s - n"] by auto
  from Cons.IH [OF f [unfolded r2] Cons.prems(2)] obtain vs m
    where res1: "res1 = Inr (vs, s - n - of_nat m)" and m: "m + length r' \<le> length r1"
    by blast
  have n: "unat n + length r1 \<le> length r" using read_consumed [OF k r1] .
  have "res = Inr (v # vs, s - of_nat (unat n + m))"
    using Cons.prems(1) k f res1 by (simp add: diff_diff_eq)
  moreover have "unat n + m + length r' \<le> length r" using m n by simp
  ultimately show ?case by blast
qed

subsection \<open>Long frames\<close>

text \<open>
  C8. The source holds a whole frame: the length \<open>hi lo\<close>, a registered tag \<open>c\<close> and
  at least the declared number of bytes behind the length. The fields of the schema
  are decoded from \<open>rest\<close> and leave \<open>rest'\<close>. If the declared length is greater than
  one (for the tag) plus the number of bytes the fields consumed, \<open>ReadMsg\<close> returns
  the too-long error and no message.
\<close>

theorem long_frame_rejected:
  assumes reg: "msgTypes c = Some typ"
    and flds: "read_fields c (fields typ) rest (uint16_of [hi, lo] - 1) = (res, rest')"
    and whole: "unat (uint16_of [hi, lo]) \<le> 1 + length rest"
    and extra: "1 + (length rest - length rest') < unat (uint16_of [hi, lo])"
  shows "ReadMsg (hi # lo # c # rest) = ((Some (TooLong c), c, None), rest')"
proof -
  let ?d = "uint16_of [hi, lo]"
  have ne: "rest' \<noteq> []" using whole extra by auto
  from read_fields_consumed [OF flds ne] obtain vs m
    where res: "res = Inr (vs, ?d - 1 - of_nat m)" and m: "m + length rest' \<le> length rest"
    by blast
  have m_less: "1 + m < unat ?d" using m extra by simp
  have d_less: "unat ?d < 2 ^ 16" using unsigned_less [of ?d, where ?'a = nat] by simp
  have one: "unat (?d - 1) = unat ?d - 1"
    using m_less by (simp add: unat_minus_one unat_eq_zero [symmetric] del: uint16_of.simps)
  have "unat (of_nat m :: 16 word) = m"
    using m_less d_less by (simp add: unat_of_nat)
  then have "(of_nat m :: 16 word) \<le> ?d - 1"
    using one m_less by (simp add: word_le_nat_alt del: uint16_of.simps)
  then have "unat (?d - 1 - of_nat m) = unat (?d - 1) - unat (of_nat m :: 16 word)"
    by (rule unat_sub)
  with one \<open>unat (of_nat m :: 16 word) = m\<close> m_less
  have "0 < unat (?d - 1 - of_nat m)" by simp
  then have pos: "0 < ?d - 1 - of_nat m"
    by (simp add: word_less_nat_alt del: uint16_of.simps)
  show ?thesis
    using reg flds res pos
    by (simp add: ReadMsg_def binary_Read_2 readByte_Cons del: uint16_of.simps)
qed

theorem long_frame_rejected_witness:
  "msgTypes YOU_ARE = Some MsgYouAre
   \<and> read_fields YOU_ARE (fields MsgYouAre) [0, 0, 0, 7, 9] (uint16_of [0, 6] - 1) =
       (Inr ([VId 7], 1), [9])
   \<and> unat (uint16_of [0, 6]) \<le> 1 + length [0, 0, 0, 7, 9 :: byte]
   \<and> 1 + (length [0, 0, 0, 7, 9 :: byte] - length [9 :: byte]) < unat (uint16_of [0, 6])
   \<and> ReadMsg [0, 6, YOU_ARE, 0, 0, 0, 7, 9] = ((Some (TooLong YOU_ARE), YOU_ARE, None), [9])"
proof -
  have a: "msgTypes YOU_ARE = Some MsgYouAre" by (simp add: msgTypes_def)
  have b: "read_fields YOU_ARE (fields MsgYouAre) [0, 0, 0, 7, 9] (uint16_of [0, 6] - 1) =
       (Inr ([VId 7], 1), [9])" by code_simp
  have c: "unat (uint16_of [0, 6]) \<le> 1 + length [0, 0, 0, 7, 9 :: byte]" by simp
  have d: "1 + (length [0, 0, 0, 7, 9 :: byte] - length [9 :: byte]) < unat (uint16_of [0, 6])"
    by simp
  show ?thesis
    using a b c d long_frame_rejected [OF a b c d] by blast
qed

text \<open>
  The same in terms of the counts the \<open>read\<close> methods report, which is what
  \<open>ReadMsg\<close> subtracts: whatever the source holds, a declared length greater than
  one plus the reported counts is answered with the too-long error.
\<close>

lemma read_fields_reported:
  "\<exists>vs r'. read_fields c ks r s = (Inr (vs, s - of_nat (reported ks r)), r')"
proof (induction ks arbitrary: r s)
  case Nil
  show ?case by simp
next
  case (Cons k ks)
  obtain v n r1 where k: "read k r = ((v, n), r1)"
    by (metis surj_pair)
  from Cons.IH [of r1 "s - n"] obtain vs r'
    where "read_fields c ks r1 (s - n) = (Inr (vs, s - n - of_nat (reported ks r1)), r')"
    by blast
  with k show ?case by (simp add: diff_diff_eq)
qed

lemma long_frame_rejected_by_count:
  assumes reg: "msgTypes c = Some typ"
    and extra: "1 + reported (fields typ) rest < unat (uint16_of [hi, lo])"
  shows "fst (ReadMsg (hi # lo # c # rest)) = (Some (TooLong c), c, None)"
proof -
  let ?d = "uint16_of [hi, lo]"
  let ?m = "reported (fields typ) rest"
  obtain vs r' where
    flds: "read_fields c (fields typ) rest (?d - 1) = (Inr (vs, ?d - 1 - of_nat ?m), r')"
    using read_fields_reported [of c "fields typ" rest "?d - 1"] by blast
  have d_less: "unat ?d < 2 ^ 16" using unsigned_less [of ?d, where ?'a = nat] by simp
  have one: "unat (?d - 1) = unat ?d - 1"
    using extra by (simp add: unat_minus_one unat_eq_zero [symmetric] del: uint16_of.simps)
  have m: "unat (of_nat ?m :: 16 word) = ?m"
    using extra d_less by (simp add: unat_of_nat)
  then have "(of_nat ?m :: 16 word) \<le> ?d - 1"
    using one extra by (simp add: word_le_nat_alt del: uint16_of.simps)
  then have "unat (?d - 1 - of_nat ?m) = unat (?d - 1) - unat (of_nat ?m :: 16 word)"
    by (rule unat_sub)
  with one m extra have "0 < unat (?d - 1 - of_nat ?m)" by simp
  then have pos: "0 < ?d - 1 - of_nat ?m"
    by (simp add: word_less_nat_alt del: uint16_of.simps)
  show ?thesis
    using reg flds pos
    by (simp add: ReadMsg_def binary_Read_2 readByte_Cons del: uint16_of.simps)
qed

text \<open>
  Short frames, in general (see C2): a field reports at most 511 bytes and a schema has
  at most ten fields, so the counter of a frame that declares less than its fields
  report wraps to a number that is not zero, and the frame is answered with the
  too-long error.
\<close>

lemma readString_count: "readString r = ((s, l), r') \<Longrightarrow> unat l \<le> 255"
proof -
  assume a: "readString r = ((s, l), r')"
  obtain b r1 where b: "readByte r = (b, r1)" by (metis surj_pair)
  from a b have "l = ucast (b + 1)"
    by (auto simp: readString_def split: prod.splits)
  moreover have "unat (b + 1) < 256"
    using unsigned_less [of "b + 1", where ?'a = nat] by simp
  ultimately show ?thesis
    by (simp add: unat_ucast_byte)
qed

lemma Cards_read_count: "Cards_read r = ((l, n), r') \<Longrightarrow> unat n \<le> 511"
proof -
  assume a: "Cards_read r = ((l, n), r')"
  obtain b r1 where b: "readByte r = (b, r1)" by (metis surj_pair)
  from a b have "n = 2 * ucast b + 1"
    by (auto simp: Cards_read_def split: prod.splits)
  moreover have "unat b < 256"
    using unsigned_less [of b, where ?'a = nat] by simp
  ultimately show ?thesis
    using unat_cards_count [of b] by simp
qed

lemma read_count: "read k r = ((v, n), r') \<Longrightarrow> unat n \<le> 511"
  by (cases k)
    (auto simp: Amount_read_def split: prod.splits dest: readString_count Cards_read_count)

lemma reported_le: "reported ks r \<le> 511 * length ks"
proof (induction ks arbitrary: r)
  case Nil
  show ?case by simp
next
  case (Cons k ks)
  obtain v n r1 where k: "read k r = ((v, n), r1)" by (metis surj_pair)
  have "unat n \<le> 511" using read_count [OF k] .
  moreover have "reported ks r1 \<le> 511 * length ks" by (rule Cons.IH)
  ultimately show ?case using k by simp
qed

lemma length_fields_le: "length (fields t) \<le> 10"
  by (cases t) simp_all

lemma short_frame_always_too_long:
  assumes reg: "msgTypes c = Some t"
    and short: "unat (uint16_of [hi, lo]) < 1 + reported (fields t) rest"
  shows "fst (ReadMsg (hi # lo # c # rest)) = (Some (TooLong c), c, None)"
proof -
  let ?d = "uint16_of [hi, lo]"
  let ?m = "reported (fields t) rest"
  obtain vs r' where
    flds: "read_fields c (fields t) rest (?d - 1) = (Inr (vs, ?d - 1 - of_nat ?m), r')"
    using read_fields_reported [of c "fields t" rest "?d - 1"] by blast
  have m_le: "?m \<le> 5110"
    using reported_le [of "fields t" rest] length_fields_le [of t] by simp
  have "?d - 1 - of_nat ?m \<noteq> 0"
  proof
    assume "?d - 1 - of_nat ?m = 0"
    then have "?d = of_nat (1 + ?m)" by (simp add: algebra_simps del: uint16_of.simps)
    then have "unat ?d = unat (of_nat (1 + ?m) :: 16 word)" by (simp only:)
    also have "\<dots> = (1 + ?m) mod 2 ^ LENGTH(16)" by (rule unat_of_nat)
    also have "\<dots> = 1 + ?m" using m_le by simp
    finally show False using short by simp
  qed
  then have pos: "0 < ?d - 1 - of_nat ?m"
    by (simp add: word_greater_zero_iff del: uint16_of.simps)
  show ?thesis
    using reg flds pos
    by (simp add: ReadMsg_def binary_Read_2 readByte_Cons del: uint16_of.simps)
qed

subsection \<open>Big-endian integers, written and read\<close>

lemma uint16_of_be16: "uint16_of (be16 w) = w"
  unfolding be16_def uint16_of.simps
  by (rule bit_word_eqI) (auto simp: bit_simps)

lemma uint32_of_be32: "uint32_of (be32 w) = w"
  unfolding be32_def uint32_of.simps
proof (rule bit_word_eqI)
  fix n :: nat
  assume "n < LENGTH(32)"
  then have n32: "n < 32" by simp
  consider "n < 8" | "8 \<le> n" "n < 16" | "16 \<le> n" "n < 24" | "24 \<le> n"
    by linarith
  then show "bit (push_bit 24 (ucast (ucast (drop_bit 24 w) :: byte)) OR
                  push_bit 16 (ucast (ucast (drop_bit 16 w) :: byte)) OR
                  push_bit 8 (ucast (ucast (drop_bit 8 w) :: byte)) OR
                  ucast (ucast w :: byte) :: 32 word) n = bit w n"
    using n32 by cases (auto simp: bit_simps)
qed

lemma length_be32: "length (be32 w) = 4" by (simp add: be32_def)

lemma readInt_be32: "readInt (be32 n @ r) = (n, r)"
proof -
  have "binary_Read (be32 n @ r) 4 = (Inr (be32 n), r)"
    by (simp add: binary_Read_def ReadFull_def length_be32) (simp add: be32_def)
  then show ?thesis by (simp add: readInt_def uint32_of_be32)
qed

subsection \<open>Whole numbers below \<open>2 ^ 24\<close> are \<open>float32\<close> values\<close>

text \<open>
  The rounding at some values whose \<open>float32\<close> is well known: 0.1 is
  \<open>0x3DCCCCCD\<close>, a third is \<open>0x3EAAAAAB\<close>, ties go to the even significand, and
  below \<open>2 ^ -126\<close> the spacing stays \<open>2 ^ -149\<close>.
\<close>

lemma fl32_known_values:
  "fl32 (1 / 10) = 13421773 / 134217728"
  "fl32 (1 / 3) = 11184811 / 33554432"
  "fl32 16777217 = 16777216"
  "fl32 16777219 = 16777220"
  "fl32 (- (1 / 10)) = - (13421773 / 134217728)"
  "fl32 (1 / 2 ^ 150) = 0"
  "fl32 (3 / 2 ^ 150) = 1 / 2 ^ 148"
  by code_simp+

lemma pow2_pos: "0 < pow2 e"
  by (simp add: pow2_def)

lemma pow2_nonpos: "e \<le> 0 \<Longrightarrow> pow2 e = 1 / 2 ^ nat (- e)"
  by (cases "e = 0") (simp_all add: pow2_def)

lemma round_half_even_of_int: "round_half_even (of_int n) = n"
  by (simp add: round_half_even_def)

lemma bitlen_1: "bitlen 1 = 1"
  by (simp add: bitlen_alt_def)

lemma ilog2_of_nat_le:
  assumes "k < 2 ^ 24"
  shows "ilog2 (of_nat k) \<le> 23"
proof -
  have "bitlen (int k) \<le> 24"
    using assms less_power_nat_iff_bitlen [of k 24] by simp
  then show ?thesis
    by (simp add: ilog2_def bitlen_1 Let_def)
qed

lemma fl32_of_nat:
  assumes "k < 2 ^ 24"
  shows "fl32 (of_nat k) = of_nat k"
proof (cases "k = 0")
  case True
  then show ?thesis by (simp add: fl32_def)
next
  case False
  define e where "e = max (ilog2 \<bar>of_nat k\<bar> - 23) (- 149)"
  have "e \<le> 0"
    using ilog2_of_nat_le [OF assms] by (simp add: e_def)
  then have p: "pow2 e = 1 / 2 ^ nat (- e)" by (rule pow2_nonpos)
  have "(of_nat k :: rat) / pow2 e = of_int (int k * 2 ^ nat (- e))"
    by (simp add: p)
  then have "round_half_even (of_nat k / pow2 e) = int k * 2 ^ nat (- e)"
    by (simp only: round_half_even_of_int)
  then have "of_int (round_half_even (of_nat k / pow2 e)) * pow2 e = (of_nat k :: rat)"
    by (simp add: p)
  with False show ?thesis
    by (simp add: fl32_def Let_def e_def)
qed

subsection \<open>Amounts that are whole hundredths\<close>

lemma truncate_of_nat: "truncate (of_nat k) = int k"
  by (simp add: truncate_def)

text \<open>
  The amounts of the domain are those that stand for some number of hundredths, and
  they are written as that number and read back as themselves.
\<close>

lemma whole_hundredths_iff: "whole_hundredths a \<longleftrightarrow> (\<exists>k. hundredths k a)"
proof
  assume "whole_hundredths a"
  then have p0: "0 \<le> fl32 (a * 100)" and p24: "fl32 (a * 100) < 2 ^ 24"
    and a: "a = fl32 (of_int \<lfloor>fl32 (a * 100)\<rfloor> / 100)"
    by (simp_all add: whole_hundredths_def Let_def)
  define k where "k = nat \<lfloor>fl32 (a * 100)\<rfloor>"
  have "0 \<le> \<lfloor>fl32 (a * 100)\<rfloor>" using p0 by simp
  then have ik: "int k = \<lfloor>fl32 (a * 100)\<rfloor>" by (simp add: k_def)
  have rk: "(of_nat k :: rat) = of_int \<lfloor>fl32 (a * 100)\<rfloor>"
    unfolding ik [symmetric] by simp
  have "\<lfloor>fl32 (a * 100)\<rfloor> < 2 ^ 24" using p24 by (simp add: floor_less_iff)
  with ik have "int k < 2 ^ 24" by simp
  then have "k < 2 ^ 24" by (simp add: nat_less_iff flip: of_nat_less_iff)
  moreover have "a = fl32 (of_nat k / 100)" unfolding rk by (rule a)
  moreover have "of_nat k \<le> fl32 (a * 100)" unfolding rk by (rule of_int_floor_le)
  moreover have "fl32 (a * 100) < of_nat k + 1"
    unfolding rk using floor_correct [of "fl32 (a * 100)"] by simp
  ultimately have "hundredths k a" unfolding hundredths_def by blast
  then show "\<exists>k. hundredths k a" ..
next
  assume "\<exists>k. hundredths k a"
  then obtain k where k24: "k < 2 ^ 24" and a: "a = fl32 (of_nat k / 100)"
    and lo: "of_nat k \<le> fl32 (a * 100)" and hi: "fl32 (a * 100) < of_nat k + 1"
    by (auto simp only: hundredths_def)
  have fl: "\<lfloor>fl32 (a * 100)\<rfloor> = int k"
    using lo hi by (simp add: floor_eq_iff)
  have "(0 :: rat) \<le> of_nat k" by simp
  then have p0: "0 \<le> fl32 (a * 100)" using lo by (rule order_trans)
  have "(of_nat k :: rat) + 1 \<le> 2 ^ 24"
  proof -
    have "k + 1 \<le> 2 ^ 24" using k24 by simp
    then have "(of_nat (k + 1) :: rat) \<le> of_nat (2 ^ 24)" by (simp only: of_nat_le_iff)
    then show ?thesis by simp
  qed
  with hi have p24: "fl32 (a * 100) < 2 ^ 24" by (rule less_le_trans)
  have "a = fl32 (of_int \<lfloor>fl32 (a * 100)\<rfloor> / 100)"
    unfolding fl using a by simp
  with p0 p24 show "whole_hundredths a"
    by (simp only: whole_hundredths_def Let_def simp_thms)
qed

lemma Amount_round_trip_hundredths:
  assumes "hundredths k a"
  shows "Amount_write [] a = be32 (of_nat k)"
    and "Amount_read (be32 (of_nat k) @ r) = ((a, 4), r)"
proof -
  from assms have k24: "k < 2 ^ 24" and a: "a = fl32 (of_nat k / 100)"
    and lo: "of_nat k \<le> fl32 (a * 100)" and hi: "fl32 (a * 100) < of_nat k + 1"
    by (auto simp only: hundredths_def)
  have "(0 :: rat) \<le> of_nat k" by simp
  then have p0: "0 \<le> fl32 (a * 100)" using lo by (rule order_trans)
  have "\<lfloor>fl32 (a * 100)\<rfloor> = int k"
    using lo hi by (simp add: floor_eq_iff)
  with p0 have "truncate (fl32 (a * 100)) = int k"
    by (simp add: truncate_def)
  then have "uint32_of_float32 (fl32 (a * 100)) = of_nat k"
    by (simp add: uint32_of_float32_def)
  then show "Amount_write [] a = be32 (of_nat k)"
    by (simp only: Amount_write_def Big_write_def append_Nil)
  have "unat (of_nat k :: 32 word) = k"
    using k24 by (simp add: unat_of_nat)
  then have "float32_of_uint32 (of_nat k) = of_nat k"
    by (simp only: float32_of_uint32_def fl32_of_nat [OF k24])
  then have "fl32 (float32_of_uint32 (of_nat k) / 100) = a"
    using a by simp
  then show "Amount_read (be32 (of_nat k) @ r) = ((a, 4), r)"
    by (simp only: Amount_read_def readInt_be32 Let_def prod.case)
qed

lemma Amount_round_trip:
  assumes "whole_hundredths a"
  shows "Amount_read (Amount_write [] a @ r) = ((a, 4), r)"
proof -
  from assms obtain k where "hundredths k a"
    using whole_hundredths_iff by blast
  then show ?thesis
    using Amount_round_trip_hundredths(1) [of k a] Amount_round_trip_hundredths(2) [of k a r]
    by simp
qed

lemma whole_hundredths_eval:
  "fl32 (a * 100) = p \<Longrightarrow>
   whole_hundredths a \<longleftrightarrow> 0 \<le> p \<and> p < 2 ^ 24 \<and> a = fl32 (of_int \<lfloor>p\<rfloor> / 100)"
  by (simp add: whole_hundredths_def Let_def)

text \<open>
  The domain holds every \<open>float32\<close> that is exactly a whole number of hundredths below
  \<open>2 ^ 24\<close>: the multiples of a quarter.
\<close>

lemma exact_multiples_in_domain:
  assumes a: "fl32 a = a" and nonneg: "0 \<le> a" and bound: "a * 100 < 2 ^ 24"
    and whole: "of_int \<lfloor>a * 100\<rfloor> = a * 100"
  shows "whole_hundredths a"
proof -
  define k where "k = nat \<lfloor>a * 100\<rfloor>"
  have "0 \<le> \<lfloor>a * 100\<rfloor>" using nonneg by simp
  then have ik: "int k = \<lfloor>a * 100\<rfloor>" by (simp add: k_def)
  have "a * 100 = of_int (int k)" unfolding ik by (rule whole [symmetric])
  then have k: "a * 100 = of_nat k" by (simp only: of_int_of_nat_eq)
  have "\<lfloor>a * 100\<rfloor> < 2 ^ 24" using bound by (simp add: floor_less_iff)
  with ik have "int k < 2 ^ 24" by simp
  then have k24: "k < 2 ^ 24" by (simp add: nat_less_iff flip: of_nat_less_iff)
  have p: "fl32 (a * 100) = of_nat k"
    unfolding k by (rule fl32_of_nat [OF k24])
  have "(of_nat k :: rat) / 100 = a"
    unfolding k [symmetric] by simp
  then have ka: "a = fl32 (of_nat k / 100)" using a by simp
  have lo: "of_nat k \<le> fl32 (a * 100)" unfolding p by simp
  have hi: "fl32 (a * 100) < of_nat k + 1" unfolding p by simp
  have "hundredths k a"
    unfolding hundredths_def using k24 ka lo hi by blast
  then show ?thesis
    using whole_hundredths_iff by blast
qed

subsection \<open>Fields, written and read\<close>

lemma write_field_append: "write_field w x = w @ write_field [] x"
  by (cases x) (simp_all add: Big_write_def Amount_write_def Text_write_def)

lemma foldl_write_field: "foldl write_field w xs = w @ concat (map (write_field []) xs)"
proof (induction xs arbitrary: w)
  case Nil
  show ?case by simp
next
  case (Cons x xs)
  have "foldl write_field w (x # xs) = foldl write_field (write_field w x) xs"
    by simp
  also have "\<dots> = write_field w x @ concat (map (write_field []) xs)"
    by (rule Cons.IH)
  also have "\<dots> = w @ concat (map (write_field []) (x # xs))"
    by (simp add: write_field_append [of w x])
  finally show ?case .
qed

lemma length_Amount_write: "length (Amount_write [] a) = 4"
  by (simp add: Amount_write_def Big_write_def be32_def)

lemma ReadFull_exact: "ReadFull (t @ r) (length t) = ((t, None), r)"
  by (cases t) (simp_all add: ReadFull_def)

lemma readString_written:
  assumes "length t \<le> 254"
  shows "readString (Text_write [] t @ r) = ((t, of_nat (length t + 1)), r)"
proof -
  let ?b = "of_nat (length t) :: byte"
  have u: "unat ?b = length t"
    using assms by (simp add: unat_of_nat)
  have "unat (ucast (?b + 1) :: 16 word) = unat (?b + 1)"
    by (rule unat_ucast_byte)
  also have "\<dots> = length t + 1"
    using assms u by (simp add: unat_word_ariths)
  finally have l: "unat (ucast (?b + 1) :: 16 word) = length t + 1" .
  have "unat (of_nat (length t + 1) :: 16 word) = (length t + 1) mod 2 ^ LENGTH(16)"
    by (rule unat_of_nat)
  also have "\<dots> = length t + 1"
    using assms by simp
  finally have "unat (ucast (?b + 1) :: 16 word) = unat (of_nat (length t + 1) :: 16 word)"
    using l by simp
  then have n: "ucast (?b + 1) = (of_nat (length t + 1) :: 16 word)"
    by (simp only: word_unat_eq_iff)
  show ?thesis
    by (simp add: readString_def Text_write_def readByte_Cons u ReadFull_exact n
        del: of_nat_add of_nat_Suc)
qed

text \<open>A text of exactly 255 bytes is read whole and reported as 0 bytes.\<close>

lemma readString_255:
  assumes "length t = 255"
  shows "readString (Text_write [] t @ r) = ((t, 0), r)"
proof -
  have "ReadFull (t @ r) 255 = ((t, None), r)"
    using ReadFull_exact [of t r] assms by simp
  then show ?thesis
    using assms by (simp add: readString_def Text_write_def readByte_Cons)
qed

lemma read_written:
  assumes "as_writable v = Some w" and "in_domain v"
  shows "read (kind_of v) (write_field [] w @ r) =
           ((v, of_nat (length (write_field [] w))), r)"
proof (cases v)
  case (VText t)
  with assms show ?thesis
    using readString_written [of t r] by (auto simp: Text_write_def)
next
  case (VAmount a)
  with assms show ?thesis
    using Amount_round_trip [of a r] by (auto simp: length_Amount_write)
next
  case (VBig n)
  with assms show ?thesis
    by (auto simp: Big_write_def readInt_be32 length_be32)
next
  case (VId n)
  with assms show ?thesis
    by (auto simp: readInt_be32 length_be32)
qed (use assms in \<open>auto simp: readByte_Cons\<close>)

lemma read_fields_written:
  assumes "map as_writable vs = map Some ws" and "list_all in_domain vs"
  shows "read_fields c (map kind_of vs) (concat (map (write_field []) ws) @ r) s =
           (Inr (vs, s - of_nat (length (concat (map (write_field []) ws)))), r)"
  using assms
proof (induction vs arbitrary: ws s)
  case Nil
  then show ?case by simp
next
  case (Cons v vs)
  from Cons.prems(1) obtain w ws' where ws: "ws = w # ws'"
    and w: "as_writable v = Some w" and ws': "map as_writable vs = map Some ws'"
    by (cases ws) auto
  from Cons.prems(2) have v: "in_domain v" and vs: "list_all in_domain vs" by simp_all
  let ?n = "of_nat (length (write_field [] w)) :: 16 word"
  have "read (kind_of v) (write_field [] w @ concat (map (write_field []) ws') @ r) =
          ((v, ?n), concat (map (write_field []) ws') @ r)"
    by (rule read_written [OF w v])
  moreover have "read_fields c (map kind_of vs) (concat (map (write_field []) ws') @ r) (s - ?n) =
          (Inr (vs, s - ?n - of_nat (length (concat (map (write_field []) ws')))), r)"
    by (rule Cons.IH [OF ws' vs])
  ultimately show ?case
    by (simp add: ws algebra_simps)
qed

subsection \<open>Texts of 255 bytes, in general\<close>

text \<open>
  Two registered shapes have a text field, \<open>MsgGameInfo\<close> and \<open>MsgNotifyChat\<close>. With
  a text of exactly 255 bytes, every message of either shape is written and then
  rejected as too long, whatever its other fields (see C4).
\<close>

lemma shapes_with_text:
  "msgTypes c = Some t \<and> KText \<in> set (fields t) \<longleftrightarrow>
   c = GAME_INFO \<and> t = MsgGameInfo \<or> c = NOTIFY_CHAT \<and> t = MsgNotifyChat"
  by (cases t) (auto simp: msgTypes_def split: if_splits)

lemma Amount_read_written:
  "Amount_read (Amount_write [] a @ r) =
     ((fl32 (float32_of_uint32 (uint32_of_float32 (fl32 (a * 100))) / 100), 4), r)"
  by (simp add: Amount_read_def Amount_write_def Big_write_def readInt_be32)

lemma length_Text_write: "length (Text_write [] t) = length t + 1"
  by (simp add: Text_write_def)

lemma writeMessage_concat:
  "writeMessage [] body =
     be16 (of_nat (length (concat (map (write_field []) body)))) @
     concat (map (write_field []) body)"
  by (simp add: writeMessage_def foldl_write_field Let_def)

lemma NOTIFY_CHAT_text_255:
  assumes "length t = 255"
  shows "ReadMsg (writeMessage [] [WCmd NOTIFY_CHAT, WId g, WId p, WText t] @ r) =
           ((Some (TooLong NOTIFY_CHAT), NOTIFY_CHAT, None), r)"
proof -
  have reg: "msgTypes NOTIFY_CHAT = Some MsgNotifyChat" by (simp add: msgTypes_def)
  have frame: "writeMessage [] [WCmd NOTIFY_CHAT, WId g, WId p, WText t] @ r =
      1 # 9 # NOTIFY_CHAT # be32 g @ be32 p @ Text_write [] t @ r"
    using assms
    by (simp add: writeMessage_concat length_be32 length_Text_write be16_def)
  show ?thesis
    unfolding frame
    by (simp add: ReadMsg_def binary_Read_2 readByte_Cons reg readInt_be32
        readString_255 [OF assms])
qed

lemma GAME_INFO_text_255:
  assumes "length t = 255"
  shows "ReadMsg (writeMessage [] [WCmd GAME_INFO, WId g, WText t, WGameType gt, WLimitType lt,
           WAmount lo, WAmount hi, WBig n1, WBig n2, WBig n3, WBig n4] @ r) =
           ((Some (TooLong GAME_INFO), GAME_INFO, None), r)"
proof -
  have reg: "msgTypes GAME_INFO = Some MsgGameInfo" by (simp add: msgTypes_def)
  have frame: "writeMessage [] [WCmd GAME_INFO, WId g, WText t, WGameType gt, WLimitType lt,
           WAmount lo, WAmount hi, WBig n1, WBig n2, WBig n3, WBig n4] @ r =
      1 # 31 # GAME_INFO # be32 g @ Text_write [] t @ gt # lt # Amount_write [] lo @
      Amount_write [] hi @ be32 n1 @ be32 n2 @ be32 n3 @ be32 n4 @ r"
    using assms
    by (simp add: writeMessage_concat length_be32 length_Text_write length_Amount_write
        Big_write_def be16_def)
  show ?thesis
    unfolding frame
    by (simp add: ReadMsg_def binary_Read_2 readByte_Cons reg readInt_be32
        readString_255 [OF assms] Amount_read_written)
qed

subsection \<open>Round trip of registered messages\<close>

text \<open>
  Which messages can be handed to \<open>writeMessage\<close>: those of every shape but the five
  with a \<open>PlayerState\<close>, \<open>GameStage\<close>, \<open>Seq\<close>, \<open>Suit\<close> or \<open>Cards\<close> field.
\<close>

lemma as_writable_None_iff: "as_writable v = None \<longleftrightarrow> \<not> has_write (kind_of v)"
  by (cases v) simp_all

lemma all_writable_iff:
  "(\<exists>ws. map as_writable vs = map Some ws) \<longleftrightarrow> list_all has_write (map kind_of vs)"
proof (induction vs)
  case Nil
  show ?case by simp
next
  case (Cons v vs)
  have "(\<exists>ws. map as_writable (v # vs) = map Some ws) \<longleftrightarrow>
        (\<exists>w. as_writable v = Some w) \<and> (\<exists>ws. map as_writable vs = map Some ws)"
  proof
    assume "\<exists>ws. map as_writable (v # vs) = map Some ws"
    then show "(\<exists>w. as_writable v = Some w) \<and> (\<exists>ws. map as_writable vs = map Some ws)"
      by (auto simp: map_eq_Cons_conv)
  next
    assume "(\<exists>w. as_writable v = Some w) \<and> (\<exists>ws. map as_writable vs = map Some ws)"
    then obtain w ws where "as_writable v = Some w" and "map as_writable vs = map Some ws"
      by blast
    then have "map as_writable (v # vs) = map Some (w # ws)" by simp
    then show "\<exists>ws. map as_writable (v # vs) = map Some ws" by blast
  qed
  also have "\<dots> \<longleftrightarrow> has_write (kind_of v) \<and> list_all has_write (map kind_of vs)"
    using as_writable_None_iff [of v] Cons.IH by auto
  finally show ?case by simp
qed

lemma writable_shapes:
  "list_all has_write (fields typ) \<longleftrightarrow>
   typ \<notin> {MsgSeatInfo, MsgNotifyDraw, MsgNotifyShared, MsgGameStage, MsgShowCards}"
  by (cases "typ") simp_all

text \<open>
  C1, as the code has it. Let \<open>c\<close> be a registered tag and \<open>vs\<close> the field values of a
  message of its shape, all in the domain, and let every one of them be a \<open>writable\<close>,
  so that the tag and the values can be handed to \<open>writeMessage\<close> at all. Then
  \<open>ReadMsg\<close> on the frame written succeeds, returns the tag and the message, and leaves
  the source behind the frame. The domain stops at texts of 254 bytes. Its amounts are
  the \<open>float32\<close> values nearest to a whole number of hundredths below \<open>2 ^ 24\<close> whose
  \<open>float32\<close> product with 100 does not fall below that number (nor reach the next):
  19.99 is one of them, 0.53 is not.
\<close>

theorem registered_message_round_trip:
  assumes reg: "msgTypes c = Some typ"
    and shape: "map kind_of vs = fields typ"
    and dom: "list_all in_domain vs"
    and wr: "map as_writable vs = map Some ws"
  shows "ReadMsg (writeMessage [] (WCmd c # ws) @ r) = ((None, c, Some (typ, vs)), r)"
proof -
  let ?body = "concat (map (write_field []) ws)"
  let ?n = "of_nat (length ?body) :: 16 word"
  have buf: "foldl write_field [c] ws = c # ?body"
    by (simp add: foldl_write_field [of "[c]" ws])
  have frame: "writeMessage [] (WCmd c # ws) @ r = be16 (1 + ?n) @ c # ?body @ r"
    by (simp add: writeMessage_def buf Let_def)
  obtain hi lo where hl: "be16 (1 + ?n) = [hi, lo]"
    by (simp add: be16_def)
  then have len: "uint16_of [hi, lo] = 1 + ?n"
    using uint16_of_be16 [of "1 + ?n"] by simp
  have "read_fields c (fields typ) (?body @ r) ?n = (Inr (vs, ?n - ?n), r)"
    using read_fields_written [OF wr dom, of c r ?n] shape by simp
  then have flds: "read_fields c (fields typ) (?body @ r) (uint16_of [hi, lo] - 1) = (Inr (vs, 0), r)"
    by (simp add: len del: uint16_of.simps)
  show ?thesis
    unfolding frame hl
    using reg flds
    by (simp add: ReadMsg_def binary_Read_2 readByte_Cons del: uint16_of.simps)
qed

theorem registered_message_round_trip_witness:
  "msgTypes GAME_INFO = Some MsgGameInfo
   \<and> map kind_of [VId 7, VText [0x54, 0x31], VGameType 1, VLimitType 2, VAmount (10480517 / 524288),
         VAmount 20, VBig 9, VBig 2, VBig 1, VBig 0] = fields MsgGameInfo
   \<and> list_all in_domain [VId 7, VText [0x54, 0x31], VGameType 1, VLimitType 2,
         VAmount (10480517 / 524288), VAmount 20, VBig 9, VBig 2, VBig 1, VBig 0]
   \<and> map as_writable [VId 7, VText [0x54, 0x31], VGameType 1, VLimitType 2, VAmount (10480517 / 524288),
         VAmount 20, VBig 9, VBig 2, VBig 1, VBig 0] =
       map Some [WId 7, WText [0x54, 0x31], WGameType 1, WLimitType 2, WAmount (10480517 / 524288),
         WAmount 20, WBig 9, WBig 2, WBig 1, WBig 0]
   \<and> ReadMsg (writeMessage [] [WCmd GAME_INFO, WId 7, WText [0x54, 0x31], WGameType 1,
         WLimitType 2, WAmount (10480517 / 524288), WAmount 20, WBig 9, WBig 2, WBig 1, WBig 0] @ []) =
       ((None, GAME_INFO,
         Some (MsgGameInfo, [VId 7, VText [0x54, 0x31], VGameType 1, VLimitType 2,
           VAmount (10480517 / 524288), VAmount 20, VBig 9, VBig 2, VBig 1, VBig 0])), [])"
proof -
  let ?vs = "[VId 7, VText [0x54, 0x31], VGameType 1, VLimitType 2, VAmount (10480517 / 524288),
         VAmount 20, VBig 9, VBig 2, VBig 1, VBig 0]"
  let ?ws = "[WId 7, WText [0x54, 0x31], WGameType 1, WLimitType 2, WAmount (10480517 / 524288),
         WAmount 20, WBig 9, WBig 2, WBig 1, WBig 0]"
  have a: "msgTypes GAME_INFO = Some MsgGameInfo" by (simp add: msgTypes_def)
  have b: "map kind_of ?vs = fields MsgGameInfo" by simp
  have "fl32 (10480517 / 524288 * 100) = 1999" by code_simp
  moreover have "fl32 (1999 / 100) = 10480517 / 524288" by code_simp
  ultimately have lo: "whole_hundredths (10480517 / 524288)"
    by (simp add: whole_hundredths_eval [where p = 1999])
  have "fl32 (20 * 100) = 2000" by code_simp
  moreover have "fl32 (2000 / 100) = 20" by code_simp
  ultimately have hi: "whole_hundredths 20"
    by (simp add: whole_hundredths_eval [where p = 2000])
  from lo hi have c: "list_all in_domain ?vs" by simp
  have d: "map as_writable ?vs = map Some ?ws" by simp
  show ?thesis
    using a b c d registered_message_round_trip [OF a b c d, of "[]"] by blast
qed

subsection \<open>Amounts: evaluation\<close>

lemma readInt_4: "readInt (a # b # c # d # r) = (uint32_of [a, b, c, d], r)"
  by (simp add: readInt_def binary_Read_def ReadFull_def)

lemma Amount_read_eq:
  assumes "uint32_of [a, b, c, d] = n" and "float32_of_uint32 n = p" and "fl32 (p / 100) = q"
  shows "Amount_read (a # b # c # d # r) = ((q, 4), r)"
  using assms by (simp add: Amount_read_def readInt_4 del: uint32_of.simps)

lemma Amount_write_eq:
  assumes "fl32 (a * 100) = p" and "uint32_of_float32 p = n" and "be32 n = bs"
  shows "Amount_write w a = w @ bs"
  using assms by (simp add: Amount_write_def Big_write_def)

lemma fl32_0_53: "fl32 (53 / 100) = 2222981 / 4194304" by code_simp
lemma fl32_0_52: "fl32 (52 / 100) = 1090519 / 2097152" by code_simp

lemma Amount_write_0_53: "Amount_write w (2222981 / 4194304) = w @ [0, 0, 0, 52]"
proof (rule Amount_write_eq)
  show "fl32 (2222981 / 4194304 * 100) = 13893631 / 262144" by code_simp
  show "uint32_of_float32 (13893631 / 262144) = 52" by code_simp
  show "be32 52 = [0, 0, 0, 52]" by (simp add: be32_def)
qed

lemma Amount_read_53: "Amount_read [0, 0, 0, 53] = ((2222981 / 4194304, 4), [])"
proof (rule Amount_read_eq)
  show "uint32_of [0, 0, 0, 53] = 53" by simp
  show "float32_of_uint32 53 = 53"
  proof -
    have "fl32 53 = 53" by code_simp
    then show ?thesis by (simp add: float32_of_uint32_def)
  qed
  show "fl32 (53 / 100) = 2222981 / 4194304" by (rule fl32_0_53)
qed

lemma Amount_read_52: "Amount_read [0, 0, 0, 52] = ((1090519 / 2097152, 4), [])"
proof (rule Amount_read_eq)
  show "uint32_of [0, 0, 0, 52] = 52" by simp
  show "float32_of_uint32 52 = 52"
  proof -
    have "fl32 52 = 52" by code_simp
    then show ?thesis by (simp add: float32_of_uint32_def)
  qed
  show "fl32 (52 / 100) = 1090519 / 2097152" by (rule fl32_0_52)
qed

text \<open>
  C3 at the amount 0.53. The \<open>float32\<close> nearest to 0.53 is what \<open>Amount.read\<close> returns
  for 53 hundredths; \<open>Amount.write\<close> multiplies it by 100 in \<open>float32\<close>, which gives
  52.999996, and the conversion to \<open>uint32\<close> discards the fraction: 52 is written, and
  reading 52 gives the \<open>float32\<close> nearest to 0.52.
\<close>

theorem Amount_0_53_encoded_as_52:
  "Amount_write [] (fl32 (53 / 100)) = [0, 0, 0, 52]
   \<and> Amount_read [0, 0, 0, 53] = ((fl32 (53 / 100), 4), [])
   \<and> Amount_read [0, 0, 0, 52] = ((fl32 (52 / 100), 4), [])
   \<and> fl32 (52 / 100) \<noteq> fl32 (53 / 100)"
proof -
  have "(1090519 / 2097152 :: rat) \<noteq> 2222981 / 4194304" by simp
  then show ?thesis
    unfolding fl32_0_53 fl32_0_52
    using Amount_write_0_53 [of "[]"] Amount_read_53 Amount_read_52
    by (simp only: append_Nil simp_thms)
qed

text \<open>The amount 19.99 of the specification's example does survive the round trip.\<close>

lemma fl32_19_99: "fl32 (1999 / 100) = 10480517 / 524288" by code_simp
lemma fl32_1_06: "fl32 (106 / 100) = 2222981 / 2097152" by code_simp
lemma fl32_1_05: "fl32 (105 / 100) = 4404019 / 4194304" by code_simp
lemma fl32_1_04: "fl32 (104 / 100) = 1090519 / 1048576" by code_simp

lemma Amount_19_99_round_trip:
  "Amount_write [] (fl32 (1999 / 100)) = [0, 0, 7, 207]
   \<and> Amount_read [0, 0, 7, 207] = ((fl32 (1999 / 100), 4), [])"
proof -
  have "Amount_write [] (10480517 / 524288) = [] @ [0, 0, 7, 207]"
  proof (rule Amount_write_eq)
    show "fl32 (10480517 / 524288 * 100) = 1999" by code_simp
    show "uint32_of_float32 1999 = 1999" by code_simp
    show "be32 1999 = [0, 0, 7, 207]" by (simp add: be32_def)
  qed
  moreover have "Amount_read [0, 0, 7, 207] = ((10480517 / 524288, 4), [])"
  proof (rule Amount_read_eq)
    show "uint32_of [0, 0, 7, 207] = 1999" by simp
    show "float32_of_uint32 1999 = 1999"
  proof -
    have "fl32 1999 = 1999" by code_simp
    then show ?thesis by (simp add: float32_of_uint32_def)
  qed
    show "fl32 (1999 / 100) = 10480517 / 524288" by (rule fl32_19_99)
  qed
  ultimately show ?thesis
    unfolding fl32_19_99 by (simp only: append_Nil simp_thms)
qed

text \<open>
  Repeating the round trip is not idempotent: 1.06 becomes 1.05, and 1.05 becomes 1.04,
  which then stays.
\<close>

lemma Amount_1_06_drifts:
  "Amount_write [] (fl32 (106 / 100)) = [0, 0, 0, 105]
   \<and> Amount_read [0, 0, 0, 105] = ((fl32 (105 / 100), 4), [])
   \<and> Amount_write [] (fl32 (105 / 100)) = [0, 0, 0, 104]
   \<and> Amount_read [0, 0, 0, 104] = ((fl32 (104 / 100), 4), [])
   \<and> Amount_write [] (fl32 (104 / 100)) = [0, 0, 0, 104]"
proof -
  have a: "Amount_write [] (2222981 / 2097152) = [] @ [0, 0, 0, 105]"
  proof (rule Amount_write_eq)
    show "fl32 (2222981 / 2097152 * 100) = 13893631 / 131072" by code_simp
    show "uint32_of_float32 (13893631 / 131072) = 105" by code_simp
    show "be32 105 = [0, 0, 0, 105]" by (simp add: be32_def)
  qed
  have b: "Amount_write [] (4404019 / 4194304) = [] @ [0, 0, 0, 104]"
  proof (rule Amount_write_eq)
    show "fl32 (4404019 / 4194304 * 100) = 13762559 / 131072" by code_simp
    show "uint32_of_float32 (13762559 / 131072) = 104" by code_simp
    show "be32 104 = [0, 0, 0, 104]" by (simp add: be32_def)
  qed
  have c: "Amount_write [] (1090519 / 1048576) = [] @ [0, 0, 0, 104]"
  proof (rule Amount_write_eq)
    show "fl32 (1090519 / 1048576 * 100) = 104" by code_simp
    show "uint32_of_float32 104 = 104" by code_simp
    show "be32 104 = [0, 0, 0, 104]" by (simp add: be32_def)
  qed
  have d: "Amount_read [0, 0, 0, 105] = ((4404019 / 4194304, 4), [])"
  proof (rule Amount_read_eq)
    show "uint32_of [0, 0, 0, 105] = 105" by simp
    show "float32_of_uint32 105 = 105"
  proof -
    have "fl32 105 = 105" by code_simp
    then show ?thesis by (simp add: float32_of_uint32_def)
  qed
    show "fl32 (105 / 100) = 4404019 / 4194304" by (rule fl32_1_05)
  qed
  have e: "Amount_read [0, 0, 0, 104] = ((1090519 / 1048576, 4), [])"
  proof (rule Amount_read_eq)
    show "uint32_of [0, 0, 0, 104] = 104" by simp
    show "float32_of_uint32 104 = 104"
  proof -
    have "fl32 104 = 104" by code_simp
    then show ?thesis by (simp add: float32_of_uint32_def)
  qed
    show "fl32 (104 / 100) = 1090519 / 1048576" by (rule fl32_1_04)
  qed
  show ?thesis
    unfolding fl32_1_06 fl32_1_05 fl32_1_04
    using a b c d e by (simp only: append_Nil simp_thms)
qed

text \<open>
  Above \<open>2 ^ 24\<close> hundredths the product is no \<open>float32\<close> value any more: 167772.25 is
  written as 16777224 and read back as 167772.234375.
\<close>

lemma Amount_write_167772_25: "Amount_write w (671089 / 4) = w @ [1, 0, 0, 8]"
proof (rule Amount_write_eq)
  show "fl32 (671089 / 4 * 100) = 16777224" by code_simp
  show "uint32_of_float32 16777224 = 16777224" by code_simp
  show "be32 16777224 = [1, 0, 0, 8]" by (simp add: be32_def)
qed

lemma Amount_read_16777224: "Amount_read (1 # 0 # 0 # 8 # r) = ((10737423 / 64, 4), r)"
proof (rule Amount_read_eq)
  show "uint32_of [1, 0, 0, 8] = 16777224" by simp
  show "float32_of_uint32 16777224 = 16777224"
  proof -
    have "fl32 16777224 = 16777224" by code_simp
    then show ?thesis by (simp add: float32_of_uint32_def)
  qed
  show "fl32 (16777224 / 100) = 10737423 / 64" by code_simp
qed

text \<open>A request writer at this amount: a raise by 0.53 goes out as a raise by 0.52.\<close>

lemma WriteRaise_0_53:
  "WriteRaise [] 1 (fl32 (53 / 100)) = [0, 9, RAISE, 0, 0, 0, 1, 0, 0, 0, 52]"
  unfolding fl32_0_53
  by (simp add: WriteRaise_def writeMessage_def be16_def be32_def Amount_write_0_53)

text \<open>
  Which amounts are in the domain: 0.01 and 19.99 are; 0.53 is not, its product with
  100 falls below 53; 167772.25 is not, it has more than \<open>2 ^ 24\<close> hundredths.
\<close>

lemma amounts_in_domain:
  "whole_hundredths (fl32 (1 / 100))"
  "whole_hundredths (fl32 (1999 / 100))"
proof -
  have a: "fl32 (1 / 100) = 5368709 / 536870912" by code_simp
  have "fl32 (5368709 / 536870912 * 100) = 1" by code_simp
  then show "whole_hundredths (fl32 (1 / 100))"
    unfolding a using a by (simp add: whole_hundredths_eval [where p = 1])
  have "fl32 (10480517 / 524288 * 100) = 1999" by code_simp
  then show "whole_hundredths (fl32 (1999 / 100))"
    unfolding fl32_19_99 using fl32_19_99 by (simp add: whole_hundredths_eval [where p = 1999])
qed

lemma amounts_outside_domain:
  "\<not> whole_hundredths (fl32 (53 / 100))"
  "\<not> whole_hundredths (fl32 (16777225 / 100))"
proof -
  have p: "fl32 (2222981 / 4194304 * 100) = 13893631 / 262144" by code_simp
  have f: "\<lfloor>13893631 / 262144 :: rat\<rfloor> = 52" by code_simp
  have q: "fl32 (of_int 52 / 100) = 1090519 / 2097152" by code_simp
  show "\<not> whole_hundredths (fl32 (53 / 100))"
    unfolding fl32_0_53 by (simp only: whole_hundredths_eval [OF p] f q) simp
  have a: "fl32 (16777225 / 100) = 671089 / 4" by code_simp
  have p': "fl32 (671089 / 4 * 100) = 16777224" by code_simp
  show "\<not> whole_hundredths (fl32 (16777225 / 100))"
    unfolding a by (simp only: whole_hundredths_eval [OF p']) simp
qed

text \<open>
  C1 as the claim states it fails. A \<open>GAME_STAGE\<close> message is registered, and its
  \<open>GameStage\<close> field has no \<open>write\<close> method, so the message cannot be handed to
  \<open>writeMessage\<close>. A \<open>NOTIFY_CHAT\<close> message with a text of 255 bytes is written and
  then rejected as too long. A \<open>NOTIFY_WIN\<close> message with the amount 167772.25, which
  is 16777225 hundredths, is read back with the amount 167772.234375, and one with the
  amount 0.53 is read back with the amount 0.52.
\<close>

theorem round_trip_fails_for_registered_messages:
  "msgTypes GAME_STAGE = Some MsgGameStage
   \<and> map kind_of [VId 1, VGameStage 1] = fields MsgGameStage
   \<and> map as_writable [VId 1, VGameStage 1] = [Some (WId 1), None]
   \<and> ReadMsg (writeMessage [] [WCmd NOTIFY_CHAT, WId 3, WId 4, WText (replicate 255 0x62)]) =
       ((Some (TooLong NOTIFY_CHAT), NOTIFY_CHAT, None), [])
   \<and> fl32 (16777225 / 100) = 671089 / 4
   \<and> ReadMsg (writeMessage [] [WCmd NOTIFY_WIN, WId 3, WId 4, WAmount (671089 / 4)]) =
       ((None, NOTIFY_WIN, Some (MsgNotifyWin, [VId 3, VId 4, VAmount (10737423 / 64)])), [])
   \<and> fl32 (53 / 100) = 2222981 / 4194304
   \<and> fl32 (52 / 100) = 1090519 / 2097152
   \<and> ReadMsg (writeMessage [] [WCmd NOTIFY_WIN, WId 3, WId 4, WAmount (2222981 / 4194304)]) =
       ((None, NOTIFY_WIN, Some (MsgNotifyWin, [VId 3, VId 4, VAmount (1090519 / 2097152)])), [])"
proof -
  have a: "msgTypes GAME_STAGE = Some MsgGameStage" by (simp add: msgTypes_def)
  have a1: "map kind_of [VId 1, VGameStage 1] = fields MsgGameStage" by simp
  have a2: "map as_writable [VId 1, VGameStage 1] = [Some (WId 1), None]" by simp
  have b: "ReadMsg (writeMessage [] [WCmd NOTIFY_CHAT, WId 3, WId 4, WText (replicate 255 0x62)]) =
       ((Some (TooLong NOTIFY_CHAT), NOTIFY_CHAT, None), [])" by code_simp
  have c: "fl32 (16777225 / 100) = 671089 / 4" by code_simp
  have w: "writeMessage [] [WCmd NOTIFY_WIN, WId 3, WId 4, WAmount (671089 / 4)] =
       [0, 13, NOTIFY_WIN, 0, 0, 0, 3, 0, 0, 0, 4, 1, 0, 0, 8]"
    by (simp add: writeMessage_def be16_def be32_def Amount_write_167772_25)
  have w': "writeMessage [] [WCmd NOTIFY_WIN, WId 3, WId 4, WAmount (2222981 / 4194304)] =
       [0, 13, NOTIFY_WIN, 0, 0, 0, 3, 0, 0, 0, 4, 0, 0, 0, 52]"
    by (simp add: writeMessage_def be16_def be32_def Amount_write_0_53)
  have reg: "msgTypes NOTIFY_WIN = Some MsgNotifyWin" by (simp add: msgTypes_def)
  have e: "ReadMsg [0, 13, NOTIFY_WIN, 0, 0, 0, 3, 0, 0, 0, 4, 1, 0, 0, 8] =
       ((None, NOTIFY_WIN, Some (MsgNotifyWin, [VId 3, VId 4, VAmount (10737423 / 64)])), [])"
    by (simp add: ReadMsg_def binary_Read_2 readByte_Cons reg readInt_4 Amount_read_16777224)
  have e': "ReadMsg [0, 13, NOTIFY_WIN, 0, 0, 0, 3, 0, 0, 0, 4, 0, 0, 0, 52] =
       ((None, NOTIFY_WIN, Some (MsgNotifyWin, [VId 3, VId 4, VAmount (1090519 / 2097152)])), [])"
    by (simp add: ReadMsg_def binary_Read_2 readByte_Cons reg readInt_4 Amount_read_52)
  show ?thesis
    unfolding w w' using a a1 a2 b c e e' fl32_0_53 fl32_0_52
    by (simp only: simp_thms)
qed

end
